theory Spec2Isabelle
  imports Complex_Main "HOL-Library.Log_Nat"
begin

section \<open>Syntax tree and normalized block model (parser/index.ts)\<close>

text \<open>
  A syntax-tree node of the external Markdown parser. The normalizer reads a node through
  \<^verbatim>\<open>node.type\<close> and, after a cast to \<^verbatim>\<open>any\<close>, through the fields
  \<^verbatim>\<open>value\<close>, \<^verbatim>\<open>children\<close>, \<^verbatim>\<open>depth\<close>, \<^verbatim>\<open>lang\<close>,
  \<^verbatim>\<open>ordered\<close>, \<^verbatim>\<open>start\<close>, \<^verbatim>\<open>checked\<close>, \<^verbatim>\<open>url\<close>,
  \<^verbatim>\<open>title\<close> and \<^verbatim>\<open>alt\<close>. A field that is absent (or null) is \<open>None\<close>.
  Every read of \<^verbatim>\<open>children\<close> below the root is \<^verbatim>\<open>x.children || []\<close>, so an
  absent child list is the empty list. The root's children (line 41) are read as they
  are, with no default: the type \<^verbatim>\<open>Root\<close> requires the list, the parser supplies it, and
  the synthetic roots of lines 88 and 103 are built with one, so the model takes the child
  list of a root as present.
\<close>

datatype node = Node
  (ntype: string)
  (nvalue: "string option")
  (nchildren: "node list")
  (ndepth: "int option")
  (nlang: "string option")
  (nordered: "bool option")
  (nstart: "int option")
  (nchecked: "bool option")
  (nurl: "string option")
  (ntitle: "string option")
  (nalt: "string option")

text \<open>
  The interface \<^verbatim>\<open>NormalizedBlock\<close>: a type tag and eleven optional fields, in the order
  of the interface declaration.
\<close>

datatype block = Block
  (btype: string)
  (content: "string option")
  (children: "block list option")
  (level: "int option")
  (ordered: "bool option")
  (start: "int option")
  (language: "string option")
  (url: "string option")
  (title: "string option")
  (alt: "string option")
  (checked: "bool option")
  (depth: "int option")

text \<open>The object literal \<^verbatim>\<open>{ type: 'text', content: currentText }\<close>.\<close>

definition text_block :: "string \<Rightarrow> block" where
  "text_block currentText =
     Block ''text'' (Some currentText) None None None None None None None None None None"

text \<open>The synthetic root \<^verbatim>\<open>{ type: 'root', children: cs }\<close> built for blockquotes and list items.\<close>

definition root_of :: "node list \<Rightarrow> node" where
  "root_of cs = Node ''root'' None cs None None None None None None None None"

text \<open>
  The statement repeated before every inline construct and after the scan:
  \<^verbatim>\<open>if (currentText) { result.push({ type: 'text', content: currentText }); }\<close>.
  A string is truthy exactly when it is not empty. (Resetting \<^verbatim>\<open>currentText\<close> is done by
  the caller, which continues the loop with the empty string.)
\<close>

definition flush :: "block list \<Rightarrow> string \<Rightarrow> block list" where
  "flush result currentText =
     (if currentText \<noteq> [] then result @ [text_block currentText] else result)"

text \<open>
  \<^verbatim>\<open>currentText += text.value\<close>: string concatenation with an absent value appends the
  text of \<^verbatim>\<open>undefined\<close>.
\<close>

definition text_value :: "node \<Rightarrow> string" where
  "text_value n = (case nvalue n of Some v \<Rightarrow> v | None \<Rightarrow> ''undefined'')"

lemma size_nchildren: "size_list size (nchildren n) < size n"
  by (cases n) simp

lemma size_child: "x \<in> set (nchildren n) \<Longrightarrow> size x < size n"
proof -
  assume "x \<in> set (nchildren n)"
  then have "size x \<le> size_list size (nchildren n)"
    by (simp add: size_list_estimation')
  with size_nchildren [of n] show ?thesis by simp
qed

text \<open>
  \<^verbatim>\<open>normalizeInlineContent\<close> (lines 127-219). The \<^verbatim>\<open>for\<close> loop over the nodes is
  \<open>inline_loop\<close>, which carries the two mutable variables \<^verbatim>\<open>result\<close> and
  \<^verbatim>\<open>currentText\<close>; the \<^verbatim>\<open>switch\<close> on \<^verbatim>\<open>node.type\<close> is the chain of tests
  in the source's order. (The variable \<^verbatim>\<open>currentEmphasis\<close> is never read.)
\<close>

function normalizeInlineContent :: "node list \<Rightarrow> block list"
  and inline_loop :: "node list \<Rightarrow> block list \<Rightarrow> string \<Rightarrow> block list \<times> string"
where
  "normalizeInlineContent nodes =
     (case inline_loop nodes [] [] of (result, currentText) \<Rightarrow> flush result currentText)"
| "inline_loop [] result currentText = (result, currentText)"
| "inline_loop (n # rest) result currentText =
     (if ntype n = ''text'' then
        inline_loop rest result (currentText @ text_value n)
      else if ntype n = ''inlineCode'' then
        inline_loop rest
          (flush result currentText @
           [Block ''inlineCode'' (nvalue n) None None None None None None None None None None])
          []
      else if ntype n = ''strong'' then
        inline_loop rest
          (flush result currentText @
           [Block ''strong'' None (Some (normalizeInlineContent (nchildren n)))
              None None None None None None None None None])
          []
      else if ntype n = ''emphasis'' then
        inline_loop rest
          (flush result currentText @
           [Block ''emphasis'' None (Some (normalizeInlineContent (nchildren n)))
              None None None None None None None None None])
          []
      else if ntype n = ''link'' then
        inline_loop rest
          (flush result currentText @
           [Block ''link'' None (Some (normalizeInlineContent (nchildren n)))
              None None None None (nurl n) (ntitle n) None None None])
          []
      else if ntype n = ''image'' then
        inline_loop rest
          (flush result currentText @
           [Block ''image'' None None None None None None (nurl n) (ntitle n) (nalt n) None None])
          []
      else if ntype n = ''break'' then
        inline_loop rest result (currentText @ [CHR 0x0A])
      else
        inline_loop rest result currentText)"
  by pat_completeness auto
termination
  apply (relation "measure (\<lambda>x. case x of
            Inl nodes \<Rightarrow> 2 * size_list size nodes + 1
          | Inr (nodes, result, currentText) \<Rightarrow> 2 * size_list size nodes)")
  apply simp_all
  subgoal for n rest using size_nchildren [of n] by simp
  subgoal for n rest using size_nchildren [of n] by simp
  subgoal for n rest using size_nchildren [of n] by simp
  done

text \<open>
  \<^verbatim>\<open>normalizeAST\<close> (lines 36-49) and \<^verbatim>\<open>normalizeNode\<close> (lines 51-125). Pushing the
  spread of each child's blocks is the concatenation of the children's results. The
  defaults are the source's: \<^verbatim>\<open>code.lang || undefined\<close>, \<^verbatim>\<open>list.ordered || false\<close>,
  \<^verbatim>\<open>list.start || 1\<close>, \<^verbatim>\<open>item.depth || 0\<close> (the empty string, \<open>0\<close> and an absent
  value are falsy).
\<close>

function normalizeAST :: "node \<Rightarrow> block list"
  and normalizeNode :: "node \<Rightarrow> block list"
where
  "normalizeAST n =
     (if ntype n = ''root'' then concat (map normalizeNode (nchildren n))
      else normalizeNode n)"
| "normalizeNode n =
     (if ntype n = ''heading'' then
        [Block ''heading'' None (Some (normalizeInlineContent (nchildren n))) (ndepth n)
           None None None None None None None None]
      else if ntype n = ''paragraph'' then
        [Block ''paragraph'' None (Some (normalizeInlineContent (nchildren n))) None
           None None None None None None None None]
      else if ntype n = ''code'' then
        [Block ''code'' (nvalue n) None None None None
           (case nlang n of Some l \<Rightarrow> if l \<noteq> [] then Some l else None | None \<Rightarrow> None)
           None None None None None]
      else if ntype n = ''blockquote'' then
        [Block ''blockquote'' None (Some (normalizeAST (root_of (nchildren n)))) None
           None None None None None None None None]
      else if ntype n = ''list'' then
        [Block ''list'' None
           (Some (map (\<lambda>item.
              Block ''listItem'' None (Some (normalizeAST (root_of (nchildren item)))) None
                None None None None None None (nchecked item)
                (Some (case ndepth item of Some d \<Rightarrow> if d \<noteq> 0 then d else 0 | None \<Rightarrow> 0)))
              (nchildren n)))
           None
           (Some (case nordered n of Some b \<Rightarrow> b | None \<Rightarrow> False))
           (Some (case nstart n of Some s \<Rightarrow> if s \<noteq> 0 then s else 1 | None \<Rightarrow> 1))
           None None None None None None]
      else if ntype n = ''thematicBreak'' then
        [Block ''thematicBreak'' None None None None None None None None None None None]
      else if ntype n = ''html'' then []
      else [])"
  by pat_completeness auto
termination
  apply (relation "measure (\<lambda>x. case x of
            Inl n \<Rightarrow> (if ntype n = ''root'' then 3 * size n - 1 else 3 * size n + 1)
          | Inr n \<Rightarrow> 3 * size n)")
  subgoal by simp
  subgoal for n x using size_child [of x n] by auto
  subgoal by simp
  subgoal for n using size_nchildren [of n] by (auto simp: root_of_def)
  subgoal for n x using size_child [of x n] size_nchildren [of x] by (auto simp: root_of_def)
  done

declare normalizeInlineContent.simps [simp del]
declare normalizeAST.simps [simp del]
declare normalizeNode.simps [simp del]

subsection \<open>Properties of block forests\<close>


text \<open>A property holds of a block and of every block below it, at every nesting level.\<close>

fun forest_all :: "(block \<Rightarrow> bool) \<Rightarrow> block \<Rightarrow> bool" where
  "forest_all P (Block t c ch l od s la u ti a chk d) =
     (P (Block t c ch l od s la u ti a chk d) \<and>
      (case ch of None \<Rightarrow> True | Some cs \<Rightarrow> list_all (forest_all P) cs))"

text \<open>A property holds of a syntax node and of every node below it.\<close>

fun tree_all :: "(node \<Rightarrow> bool) \<Rightarrow> node \<Rightarrow> bool" where
  "tree_all Q (Node t v cs d la od s chk u ti a) =
     (Q (Node t v cs d la od s chk u ti a) \<and> list_all (tree_all Q) cs)"

text \<open>A Text block carries a non-empty string.\<close>

definition text_nonempty :: "block \<Rightarrow> bool" where
  "text_nonempty b =
     (if btype b = ''text'' then (case content b of Some s \<Rightarrow> s \<noteq> [] | None \<Rightarrow> False)
      else True)"


text \<open>A Heading block has a level between 1 and 6; a heading node has such a depth.\<close>

definition heading_level_ok :: "block \<Rightarrow> bool" where
  "heading_level_ok b =
     (if btype b = ''heading''
      then (case level b of Some l \<Rightarrow> 1 \<le> l \<and> l \<le> 6 | None \<Rightarrow> False)
      else True)"

definition heading_depth_ok :: "node \<Rightarrow> bool" where
  "heading_depth_ok n =
     (if ntype n = ''heading''
      then (case ndepth n of Some d \<Rightarrow> 1 \<le> d \<and> d \<le> 6 | None \<Rightarrow> False)
      else True)"

text \<open>An inline node that reaches the \<^verbatim>\<open>default\<close> arm of the inline \<^verbatim>\<open>switch\<close>.\<close>

definition unknown_inline :: "node \<Rightarrow> bool" where
  "unknown_inline n =
     (ntype n \<noteq> ''text'' \<and> ntype n \<noteq> ''inlineCode'' \<and> ntype n \<noteq> ''strong'' \<and>
      ntype n \<noteq> ''emphasis'' \<and> ntype n \<noteq> ''link'' \<and> ntype n \<noteq> ''image'' \<and>
      ntype n \<noteq> ''break'')"





text \<open>
  \<open>inline_closed P\<close>: \<open>P\<close> holds of each block literal that the inline scan can push.
  \<open>block_closed Q P\<close>: \<open>P\<close> holds of each block literal that \<open>normalizeNode\<close> can push,
  for a heading under the condition \<open>Q\<close> on its node.
\<close>

definition inline_closed :: "(block \<Rightarrow> bool) \<Rightarrow> bool" where
  "inline_closed P \<longleftrightarrow>
     (\<forall>s. s \<noteq> [] \<longrightarrow> P (text_block s)) \<and>
     (\<forall>v. P (Block ''inlineCode'' v None None None None None None None None None None)) \<and>
     (\<forall>ns. P (Block ''strong'' None (Some (normalizeInlineContent ns))
                None None None None None None None None None)) \<and>
     (\<forall>ns. P (Block ''emphasis'' None (Some (normalizeInlineContent ns))
                None None None None None None None None None)) \<and>
     (\<forall>ns u t. P (Block ''link'' None (Some (normalizeInlineContent ns))
                None None None None u t None None None)) \<and>
     (\<forall>u t a. P (Block ''image'' None None None None None None u t a None None))"

definition block_closed :: "(node \<Rightarrow> bool) \<Rightarrow> (block \<Rightarrow> bool) \<Rightarrow> bool" where
  "block_closed Q P \<longleftrightarrow>
     (\<forall>cs. Q (root_of cs)) \<and>
     (\<forall>n. Q n \<longrightarrow> ntype n = ''heading'' \<longrightarrow>
        P (Block ''heading'' None (Some (normalizeInlineContent (nchildren n))) (ndepth n)
             None None None None None None None None)) \<and>
     (\<forall>ns. P (Block ''paragraph'' None (Some (normalizeInlineContent ns)) None
             None None None None None None None None)) \<and>
     (\<forall>v l. P (Block ''code'' v None None None None l None None None None None)) \<and>
     (\<forall>cs. P (Block ''blockquote'' None (Some (normalizeAST (root_of cs))) None
             None None None None None None None None)) \<and>
     (\<forall>cs chk d. P (Block ''listItem'' None (Some (normalizeAST (root_of cs))) None
             None None None None None None chk d)) \<and>
     (\<forall>items od s. list_all (\<lambda>b. btype b = ''listItem'') items \<longrightarrow>
        P (Block ''list'' None (Some items) None od s None None None None None None)) \<and>
     P (Block ''thematicBreak'' None None None None None None None None None None None)"


text \<open>Node literals used in examples: a node with a value, with children, and a heading.\<close>

definition leaf :: "string \<Rightarrow> string \<Rightarrow> node" where
  "leaf t v = Node t (Some v) [] None None None None None None None None"

definition parent :: "string \<Rightarrow> node list \<Rightarrow> node" where
  "parent t cs = Node t None cs None None None None None None None None"

definition heading_node :: "int \<Rightarrow> node list \<Rightarrow> node" where
  "heading_node d cs = Node ''heading'' None cs (Some d) None None None None None None None"


section \<open>Numbers (IEEE 754 double precision)\<close>

text \<open>
  A number of the source is a double: not-a-number, an infinity, negative zero, or a finite
  value, held as a rational (\<open>Fin 0\<close> is positive zero). An arithmetic operation computes
  the exact result and rounds it to the nearest double, ties to even, with gradual underflow
  (the smallest quantum is \<open>2 powi (- 1074)\<close>) and overflow to an infinity. The finite
  inputs of an operation may be any rationals; the theorems below hold for all of them, so
  for the doubles among them.
\<close>

datatype number = NaN | PInf | NInf | NegZero | Fin rat

definition is_zero :: "number \<Rightarrow> bool" where
  "is_zero a = (a = NegZero \<or> a = Fin 0)"

definition is_inf :: "number \<Rightarrow> bool" where
  "is_inf a = (a = PInf \<or> a = NInf)"

definition val :: "number \<Rightarrow> rat" where
  "val a = (case a of Fin r \<Rightarrow> r | _ \<Rightarrow> 0)"

definition negative :: "number \<Rightarrow> bool" where
  "negative a = (case a of NInf \<Rightarrow> True | NegZero \<Rightarrow> True | Fin r \<Rightarrow> r < 0 | _ \<Rightarrow> False)"

definition signed_inf :: "bool \<Rightarrow> number" where
  "signed_inf neg = (if neg then NInf else PInf)"

definition signed_zero :: "bool \<Rightarrow> number" where
  "signed_zero neg = (if neg then NegZero else Fin 0)"

text \<open>Truthiness of a number: \<open>0\<close>, \<open>-0\<close> and \<open>NaN\<close> are falsy.\<close>

definition truthy :: "number \<Rightarrow> bool" where
  "truthy a = (a \<noteq> NaN \<and> \<not> is_zero a)"

text \<open>
  Rounding a positive rational \<open>x\<close>: \<open>ilog2 x\<close> is the integer \<open>e\<close> with
  \<open>2 powi e \<le> x < 2 powi (e + 1)\<close>; the quantum of the doubles around \<open>x\<close> is
  \<open>2 powi k\<close> with \<open>k = max e (- 1022) - 52\<close>; \<open>x\<close> is rounded to the nearest multiple
  of the quantum, a tie going to the even multiple. The result overflows when it reaches
  \<open>2 powi 1024\<close>, that is when \<open>k\<close> exceeds 971, or is 971 and the multiple reaches
  \<open>2 ^ 53\<close>.
\<close>

definition ilog2 :: "rat \<Rightarrow> int" where
  "ilog2 x = (if 1 \<le> x then bitlen \<lfloor>x\<rfloor> - 1 else - bitlen (\<lceil>1 / x\<rceil> - 1))"

definition round_half_even :: "rat \<Rightarrow> int" where
  "round_half_even y =
     (let f = \<lfloor>y\<rfloor>; d = y - of_int f
      in if d < 1 / 2 then f else if 1 / 2 < d then f + 1 else if even f then f else f + 1)"

definition round_mag :: "rat \<Rightarrow> rat option" where
  "round_mag x =
     (let k = max (ilog2 x) (- 1022) - 52;
          n = round_half_even (x / 2 powi k)
      in if 971 < k \<or> (k = 971 \<and> 2 ^ 53 \<le> n) then None else Some (of_int n * 2 powi k))"

definition round_double :: "rat \<Rightarrow> number" where
  "round_double x =
     (if x = 0 then Fin 0
      else if 0 < x then (case round_mag x of None \<Rightarrow> PInf | Some m \<Rightarrow> Fin m)
      else (case round_mag (- x) of
              None \<Rightarrow> NInf
            | Some m \<Rightarrow> if m = 0 then NegZero else Fin (- m)))"

text \<open>
  The operators \<^verbatim>\<open>*\<close>, \<^verbatim>\<open>/\<close>, \<^verbatim>\<open>+\<close> and \<^verbatim>\<open>-\<close> on numbers. A zero times an
  infinity, a zero by a zero, an infinity by an infinity and the sum of opposite infinities
  are \<open>NaN\<close>; the sign of a product or quotient is the exclusive or of the signs; an exact
  zero sum is negative only when both summands are negative zero.
\<close>

definition num_mul :: "number \<Rightarrow> number \<Rightarrow> number" where
  "num_mul a b =
     (if a = NaN \<or> b = NaN then NaN
      else if (is_zero a \<and> is_inf b) \<or> (is_inf a \<and> is_zero b) then NaN
      else if is_inf a \<or> is_inf b then signed_inf (negative a \<noteq> negative b)
      else if is_zero a \<or> is_zero b then signed_zero (negative a \<noteq> negative b)
      else round_double (val a * val b))"

definition num_div :: "number \<Rightarrow> number \<Rightarrow> number" where
  "num_div a b =
     (if a = NaN \<or> b = NaN then NaN
      else if (is_zero a \<and> is_zero b) \<or> (is_inf a \<and> is_inf b) then NaN
      else if is_inf a \<or> is_zero b then signed_inf (negative a \<noteq> negative b)
      else if is_zero a \<or> is_inf b then signed_zero (negative a \<noteq> negative b)
      else round_double (val a / val b))"

definition num_add :: "number \<Rightarrow> number \<Rightarrow> number" where
  "num_add a b =
     (if a = NaN \<or> b = NaN then NaN
      else if is_inf a then (if is_inf b \<and> a \<noteq> b then NaN else a)
      else if is_inf b then b
      else if val a + val b = 0 then signed_zero (a = NegZero \<and> b = NegZero)
      else round_double (val a + val b))"

definition num_neg :: "number \<Rightarrow> number" where
  "num_neg a =
     (case a of NaN \<Rightarrow> NaN | PInf \<Rightarrow> NInf | NInf \<Rightarrow> PInf | NegZero \<Rightarrow> Fin 0
      | Fin r \<Rightarrow> if r = 0 then NegZero else Fin (- r))"

definition num_sub :: "number \<Rightarrow> number \<Rightarrow> number" where
  "num_sub a b = num_add a (num_neg b)"

text \<open>
  The order used by \<^verbatim>\<open>Math.max\<close> and \<^verbatim>\<open>Math.min\<close> (negative zero is below positive
  zero), these two functions (\<open>NaN\<close> when an argument is), and \<^verbatim>\<open>Math.floor\<close> and
  \<^verbatim>\<open>Math.ceil\<close> (the ceiling of a value between \<open>-1\<close> and \<open>0\<close> is negative zero).
\<close>

definition num_less :: "number \<Rightarrow> number \<Rightarrow> bool" where
  "num_less a b =
     (a \<noteq> PInf \<and> b \<noteq> NInf \<and> a \<noteq> b \<and>
      (a = NInf \<or> b = PInf \<or> val a < val b \<or> (val a = val b \<and> a = NegZero)))"

definition Math_max :: "number \<Rightarrow> number \<Rightarrow> number" where
  "Math_max a b = (if a = NaN \<or> b = NaN then NaN else if num_less a b then b else a)"

definition Math_min :: "number \<Rightarrow> number \<Rightarrow> number" where
  "Math_min a b = (if a = NaN \<or> b = NaN then NaN else if num_less b a then b else a)"

definition Math_floor :: "number \<Rightarrow> number" where
  "Math_floor a = (case a of Fin r \<Rightarrow> Fin (of_int \<lfloor>r\<rfloor>) | _ \<Rightarrow> a)"

definition Math_ceil :: "number \<Rightarrow> number" where
  "Math_ceil a =
     (case a of Fin r \<Rightarrow> if - 1 < r \<and> r < 0 then NegZero else Fin (of_int \<lceil>r\<rceil>) | _ \<Rightarrow> a)"

text \<open>The literal \<^verbatim>\<open>1.2\<close> is the double nearest to \<open>6 / 5\<close>.\<close>

definition literal_1_2 :: number where
  "literal_1_2 = round_double (6 / 5)"

text \<open>A number that is not \<open>NaN\<close> and not negative (positive zero included).\<close>

definition nonneg :: "number \<Rightarrow> bool" where
  "nonneg a = (case a of Fin r \<Rightarrow> 0 \<le> r | PInf \<Rightarrow> True | _ \<Rightarrow> False)"

section \<open>Themes, watermark and options (types.ts, themes/index.ts, watermark/index.tsx)\<close>

text \<open>
  The fields of \<^verbatim>\<open>Theme\<close> that the modelled functions read: \<^verbatim>\<open>colors.background\<close>,
  \<^verbatim>\<open>colors.text\<close>, \<^verbatim>\<open>colors.code.background\<close>, \<^verbatim>\<open>colors.code.text\<close>, the four
  spacing constants and \<^verbatim>\<open>fonts.code.name\<close>.
\<close>

record theme_colors =
  background :: string
  text_color :: string
  code_background :: string
  code_text :: string

record theme_spacing =
  padding :: number
  gap :: number
  blockquotePadding :: number
  codePadding :: number

record theme =
  colors :: theme_colors
  spacing :: theme_spacing
  code_font_name :: "string option"

definition lightTheme :: theme where
  "lightTheme =
     \<lparr>colors = \<lparr>background = ''#ffffff'', text_color = ''#1a1a1a'',
                 code_background = ''#f5f5f5'', code_text = ''#1a1a1a''\<rparr>,
      spacing = \<lparr>padding = Fin 40, gap = Fin 24, blockquotePadding = Fin 20,
                  codePadding = Fin 16\<rparr>,
      code_font_name = Some ''JetBrains Mono''\<rparr>"

definition darkTheme :: theme where
  "darkTheme =
     \<lparr>colors = \<lparr>background = ''#1a1a1a'', text_color = ''#e0e0e0'',
                 code_background = ''#2a2a2a'', code_text = ''#e0e0e0''\<rparr>,
      spacing = \<lparr>padding = Fin 40, gap = Fin 24, blockquotePadding = Fin 20,
                  codePadding = Fin 16\<rparr>,
      code_font_name = Some ''JetBrains Mono''\<rparr>"

text \<open>The option \<^verbatim>\<open>theme?: 'light' | 'dark' | Theme\<close> and \<^verbatim>\<open>getTheme\<close>.\<close>

datatype theme_option = ThemeName string | ThemeObject theme

definition getTheme :: "theme_option \<Rightarrow> theme" where
  "getTheme name =
     (case name of ThemeObject t \<Rightarrow> t
      | ThemeName s \<Rightarrow> if s = ''dark'' then darkTheme else lightTheme)"

text \<open>\<^verbatim>\<open>WatermarkConfig\<close>, the constant \<^verbatim>\<open>DEFAULT_WATERMARK\<close> and \<^verbatim>\<open>normalizeWatermark\<close>.\<close>

record watermark_config =
  wenabled :: "bool option"
  wtext :: "string option"
  wopacity :: "number option"
  wfontSize :: "number option"
  wpadding :: "number option"
  wcolor :: "string option"

datatype watermark_option = WBool bool | WConfig watermark_config

definition DEFAULT_WATERMARK :: watermark_config where
  "DEFAULT_WATERMARK =
     \<lparr>wenabled = Some True, wtext = Some ''Generated with @lollopanta/mdtoimage'',
      wopacity = Some (Fin (1 / 2)), wfontSize = Some (Fin 12), wpadding = Some (Fin 16),
      wcolor = Some ''#888888''\<rparr>"

text \<open>A field of the spread \<^verbatim>\<open>{...DEFAULT_WATERMARK, ...config}\<close>.\<close>

definition spread :: "'a option \<Rightarrow> 'a option \<Rightarrow> 'a option" where
  "spread dflt over = (case over of Some v \<Rightarrow> Some v | None \<Rightarrow> dflt)"

definition normalizeWatermark :: "watermark_option option \<Rightarrow> theme \<Rightarrow> watermark_config option"
where
  "normalizeWatermark config th =
     (case config of
        Some (WBool False) \<Rightarrow> None
      | Some (WConfig c) \<Rightarrow>
          Some \<lparr>wenabled = Some (wenabled c \<noteq> Some False),
                wtext = spread (wtext DEFAULT_WATERMARK) (wtext c),
                wopacity = spread (wopacity DEFAULT_WATERMARK) (wopacity c),
                wfontSize = spread (wfontSize DEFAULT_WATERMARK) (wfontSize c),
                wpadding = spread (wpadding DEFAULT_WATERMARK) (wpadding c),
                wcolor = Some (case wcolor c of
                                 Some col \<Rightarrow> if col \<noteq> [] then col else text_color (colors th)
                               | None \<Rightarrow> text_color (colors th))\<rparr>
      | _ \<Rightarrow>
          Some (DEFAULT_WATERMARK
                 \<lparr>wcolor := Some (if background (colors th) = ''#ffffff'' \<or>
                                     background (colors th) = ''#fff''
                                  then ''#999999'' else ''#cccccc'')\<rparr>))"

text \<open>
  A watermark option that asks for a watermark that is drawn: \<^verbatim>\<open>true\<close>, an absent
  option, or a configuration whose \<^verbatim>\<open>enabled\<close> is not \<^verbatim>\<open>false\<close>.
\<close>

definition watermark_requested :: "watermark_option option \<Rightarrow> bool" where
  "watermark_requested config =
     (case config of
        None \<Rightarrow> True
      | Some (WBool b) \<Rightarrow> b
      | Some (WConfig c) \<Rightarrow> wenabled c \<noteq> Some False)"

text \<open>
  The fields of \<^verbatim>\<open>RenderOptions\<close> that decide the source text and the canvas size
  (\<^verbatim>\<open>output\<close>, \<^verbatim>\<open>format\<close> and \<^verbatim>\<open>fonts\<close> do not), and the \<^verbatim>\<open>width\<close> and
  \<^verbatim>\<open>height\<close> of \<^verbatim>\<open>RenderResult\<close>.
\<close>

record render_options =
  input :: string
  width :: "number option"
  height :: "number option"
  theme_opt :: "theme_option option"
  watermark :: "watermark_option option"
  maxWidth :: "number option"

record render_result =
  rwidth :: number
  rheight :: number

section \<open>Height estimation and the committed height (renderer/index.ts)\<close>

text \<open>\<^verbatim>\<open>getHeadingSize\<close>: the lookup \<^verbatim>\<open>sizes[level] || 16\<close>.\<close>

definition getHeadingSize :: "int \<Rightarrow> rat" where
  "getHeadingSize lvl =
     (if lvl = 1 then 36 else if lvl = 2 then 30 else if lvl = 3 then 24
      else if lvl = 4 then 20 else if lvl = 5 then 18 else if lvl = 6 then 16 else 16)"

text \<open>
  \<^verbatim>\<open>s.split('\n')\<close>: the pieces between newline characters; the empty string has one
  (empty) piece.
\<close>

fun split_newline :: "string \<Rightarrow> string list" where
  "split_newline [] = [[]]"
| "split_newline (c # cs) =
     (if c = CHR 0x0A then [] # split_newline cs
      else (case split_newline cs of l # ls \<Rightarrow> (c # l) # ls | [] \<Rightarrow> [[c]]))"

text \<open>
  The paragraph arm's line count (lines 129-130):
  \<^verbatim>\<open>charsPerLine = Math.floor(maxContentWidth / 9)\<close> and
  \<^verbatim>\<open>Math.max(1, Math.ceil(textLength / charsPerLine))\<close>. A length is a natural number
  (string and array lengths are below \<open>2 ^ 53\<close>, so they are doubles).
\<close>

definition paragraphLines :: "nat \<Rightarrow> number \<Rightarrow> number" where
  "paragraphLines textLength maxContentWidth =
     (let charsPerLine = Math_floor (num_div maxContentWidth (Fin 9))
      in Math_max (Fin 1) (Math_ceil (num_div (Fin (of_nat textLength)) charsPerLine)))"

text \<open>
  The body of the loop over the top-level blocks (lines 118-144): what one block adds to
  \<^verbatim>\<open>estimatedHeight\<close>, each operator in the source's order of evaluation. The first test
  is \<^verbatim>\<open>block.type === 'code' && block.content\<close>; a code block with an absent or empty
  content falls through to the last arm. The counter \<^verbatim>\<open>estimatedLines\<close> is never read
  and is left out.
\<close>

definition block_height :: "theme_spacing \<Rightarrow> number \<Rightarrow> block \<Rightarrow> number" where
  "block_height sp maxContentWidth b =
     (case (if btype b = ''code''
            then (case content b of Some s \<Rightarrow> if s \<noteq> [] then Some s else None | None \<Rightarrow> None)
            else None) of
        Some s \<Rightarrow>
          num_add
            (num_add (num_mul (Fin (of_nat (length (split_newline s)))) (Fin 20))
                     (num_mul (codePadding sp) (Fin 2)))
            (gap sp)
      | None \<Rightarrow>
          if btype b = ''heading'' then
            num_add
              (num_mul
                 (Fin (getHeadingSize
                         (case level b of Some l \<Rightarrow> if l \<noteq> 0 then l else 1 | None \<Rightarrow> 1)))
                 literal_1_2)
              (num_mul (gap sp) (Fin (1 / 2)))
          else if btype b = ''paragraph'' then
            num_add
              (num_mul
                 (paragraphLines
                    (case content b of
                       Some s \<Rightarrow> if length s \<noteq> 0 then length s else 100
                     | None \<Rightarrow> 100)
                    maxContentWidth)
                 (Fin 24))
              (gap sp)
          else if btype b = ''list'' then
            num_add
              (num_mul (Fin (of_nat (case children b of Some cs \<Rightarrow> length cs | None \<Rightarrow> 0)))
                       (Fin 28))
              (gap sp)
          else if btype b = ''blockquote'' then num_add (Fin 60) (gap sp)
          else num_add (Fin 30) (gap sp))"

fun estimate_loop :: "theme_spacing \<Rightarrow> number \<Rightarrow> block list \<Rightarrow> number \<Rightarrow> number" where
  "estimate_loop sp maxContentWidth [] estimatedHeight = estimatedHeight"
| "estimate_loop sp maxContentWidth (b # rest) estimatedHeight =
     estimate_loop sp maxContentWidth rest
       (num_add estimatedHeight (block_height sp maxContentWidth b))"

text \<open>
  \<^verbatim>\<open>estimatedHeight\<close> before the final bounds (lines 116-149): twice the padding, the
  blocks, and 40 when the normalized watermark is not null.
\<close>

definition accumulatedHeight ::
  "theme \<Rightarrow> number \<Rightarrow> watermark_config option \<Rightarrow> block list \<Rightarrow> number" where
  "accumulatedHeight th maxContentWidth wm blocks =
     (let estimatedHeight =
            estimate_loop (spacing th) maxContentWidth blocks
              (num_mul (padding (spacing th)) (Fin 2))
      in if wm \<noteq> None then num_add estimatedHeight (Fin 40) else estimatedHeight)"

text \<open>\<^verbatim>\<open>Math.max(400, Math.min(Math.ceil(estimatedHeight), 20000))\<close> (line 152).\<close>

definition boundHeight :: "number \<Rightarrow> number" where
  "boundHeight estimatedHeight =
     Math_max (Fin 400) (Math_min (Math_ceil estimatedHeight) (Fin 20000))"

definition estimateHeight ::
  "theme \<Rightarrow> number \<Rightarrow> watermark_config option \<Rightarrow> block list \<Rightarrow> number" where
  "estimateHeight th maxContentWidth wm blocks =
     boundHeight (accumulatedHeight th maxContentWidth wm blocks)"

text \<open>
  The branch \<^verbatim>\<open>if (options.height) ... else ...\<close> (lines 104-160): which height is
  committed. An absent height and a falsy height (\<open>0\<close>, \<open>-0\<close>, \<open>NaN\<close>) take the second
  branch. The theme's colours and spacing are those of
  \<^verbatim>\<open>getTheme(options.theme || 'light')\<close> (the font overrides change the fonts only);
  \<^verbatim>\<open>width = options.width || 1200\<close>;
  \<^verbatim>\<open>maxContentWidth = options.maxWidth || width - theme.spacing.padding * 2\<close>.
\<close>

datatype height_decision = Supplied number | Estimated number

definition finalHeight :: "height_decision \<Rightarrow> number" where
  "finalHeight d = (case d of Supplied h \<Rightarrow> h | Estimated e \<Rightarrow> e)"

definition optionsTheme :: "render_options \<Rightarrow> theme" where
  "optionsTheme options =
     getTheme (case theme_opt options of
                 Some (ThemeName s) \<Rightarrow> if s \<noteq> [] then ThemeName s else ThemeName ''light''
               | Some (ThemeObject t) \<Rightarrow> ThemeObject t
               | None \<Rightarrow> ThemeName ''light'')"

definition optionsWidth :: "render_options \<Rightarrow> number" where
  "optionsWidth options =
     (case width options of Some w \<Rightarrow> if truthy w then w else Fin 1200 | None \<Rightarrow> Fin 1200)"

definition optionsMaxContentWidth :: "render_options \<Rightarrow> number" where
  "optionsMaxContentWidth options =
     (let fallback =
            num_sub (optionsWidth options)
              (num_mul (padding (spacing (optionsTheme options))) (Fin 2))
      in case maxWidth options of Some m \<Rightarrow> if truthy m then m else fallback | None \<Rightarrow> fallback)"

definition decideHeight :: "render_options \<Rightarrow> block list \<Rightarrow> height_decision" where
  "decideHeight options blocks =
     (let th = optionsTheme options;
          wm = normalizeWatermark (watermark options) th;
          auto = Estimated (estimateHeight th (optionsMaxContentWidth options) wm blocks)
      in case height options of
           Some h \<Rightarrow> if truthy h then Supplied h else auto
         | None \<Rightarrow> auto)"

text \<open>
  Loading the source text (lines 34-40): \<^verbatim>\<open>readFileSync\<close> is the file system, which
  returns the file's text or throws; any exception is caught and the input string itself is
  the Markdown text.
\<close>

datatype error = Error string

definition loadMarkdown :: "(string \<Rightarrow> error + string) \<Rightarrow> string \<Rightarrow> string" where
  "loadMarkdown readFileSync inp =
     (case readFileSync inp of Inr text \<Rightarrow> text | Inl e \<Rightarrow> inp)"

text \<open>
  \<^verbatim>\<open>renderMarkdownToImage\<close>, as far as the source text, the normalized blocks and the
  \<^verbatim>\<open>width\<close> and \<^verbatim>\<open>height\<close> of its result go. The parser is a parameter; font loading
  and the vector and raster renderers are external and are assumed to succeed.
\<close>

definition renderLayout :: "render_options \<Rightarrow> block list \<Rightarrow> render_result" where
  "renderLayout options blocks =
     \<lparr>rwidth = optionsWidth options, rheight = finalHeight (decideHeight options blocks)\<rparr>"

definition renderMarkdownToImage ::
  "(string \<Rightarrow> error + string) \<Rightarrow> (string \<Rightarrow> node) \<Rightarrow> render_options \<Rightarrow> render_result" where
  "renderMarkdownToImage readFileSync parseMarkdown options =
     (let markdown = loadMarkdown readFileSync (input options);
          ast = parseMarkdown markdown;
          blocks = normalizeAST ast
      in renderLayout options blocks)"

text \<open>
  The final height in the words of the specification: the clamp of the rounded-up
  accumulated height to the interval from \<open>lo\<close> to \<open>hi\<close>. An infinite height is clamped
  to the nearer bound; of \<open>NaN\<close> there is no clamp.
\<close>

definition spec_clamp :: "int \<Rightarrow> int \<Rightarrow> int \<Rightarrow> int" where
  "spec_clamp x lo hi = (if x < lo then lo else if hi < x then hi else x)"

definition spec_final_height :: "number \<Rightarrow> int option" where
  "spec_final_height h =
     (case h of
        NaN \<Rightarrow> None
      | PInf \<Rightarrow> Some 20000
      | NInf \<Rightarrow> Some 400
      | NegZero \<Rightarrow> Some (spec_clamp 0 400 20000)
      | Fin r \<Rightarrow> Some (spec_clamp \<lceil>r\<rceil> 400 20000))"

section \<open>Code highlighting and code blocks (highlighter/index.ts, components/index.tsx)\<close>


datatype theme_mode = LightMode | DarkMode










text \<open>
  The Paragraph rule in the words of the specification: the line count is the character
  count divided by \<open>floor (contentWidthPx / 9)\<close>, rounded up, at least 1; the paragraph
  adds \<open>lineCount * 24 + blockGap\<close>. (Stated for a positive characters-per-line.)
\<close>

definition spec_paragraph_height :: "nat \<Rightarrow> rat \<Rightarrow> rat \<Rightarrow> rat" where
  "spec_paragraph_height charCount contentWidthPx blockGap =
     of_int (max 1 \<lceil>(of_nat charCount :: rat) / of_int \<lfloor>contentWidthPx / 9\<rfloor>\<rceil>) * 24 + blockGap"

text \<open>Blocks and options used in examples.\<close>

definition paragraph_block :: block where
  "paragraph_block =
     Block ''paragraph'' None (Some [text_block ''a'']) None None None None None None None None
       None"


definition default_options :: "string \<Rightarrow> render_options" where
  "default_options inp =
     \<lparr>input = inp, width = None, height = None, theme_opt = None, watermark = None,
      maxWidth = None\<rparr>"

text \<open>
  Custom themes: the light theme with a gap that is not a number, and with an infinite
  padding and an infinite negative code padding.
\<close>

definition nan_gap_theme :: theme where
  "nan_gap_theme = lightTheme\<lparr>spacing := (spacing lightTheme)\<lparr>gap := NaN\<rparr>\<rparr>"

definition infinite_theme :: theme where
  "infinite_theme =
     lightTheme\<lparr>spacing := (spacing lightTheme)\<lparr>padding := PInf, codePadding := NInf\<rparr>\<rparr>"


definition no_files :: "string \<Rightarrow> error + string" where
  "no_files p = Inl (Error ''ENOENT'')"

section \<open>Double-precision arithmetic\<close>

subsection \<open>Rounding to the nearest double\<close>

lemma ilog2_bounds:
  assumes "0 < x"
  shows "2 powi (ilog2 x) \<le> x \<and> x < 2 powi (ilog2 x + 1)"
proof (cases "1 \<le> x")
  case True
  define n where "n = \<lfloor>x\<rfloor>"
  have n: "0 < n" using True by (simp add: n_def)
  define b where "b = bitlen n"
  have bb: "2 ^ nat (b - 1) \<le> n \<and> n < 2 ^ nat b"
    unfolding b_def using bitlen_bounds [OF n] .
  have b1: "1 \<le> b"
  proof (rule ccontr)
    assume "\<not> 1 \<le> b"
    then have "nat b = 0" by simp
    with bb n show False by simp
  qed
  have e: "ilog2 x = b - 1" using True by (simp add: ilog2_def b_def n_def)
  have "(2::rat) powi (b - 1) = 2 ^ nat (b - 1)"
    using b1 by (simp add: power_int_nonneg_exp)
  also have "\<dots> = of_int (2 ^ nat (b - 1))" by simp
  also have "\<dots> \<le> of_int n" using bb by (simp only: of_int_le_iff)
  also have "\<dots> \<le> x" by (simp add: n_def)
  finally have lo: "2 powi (b - 1) \<le> x" .
  have "n + 1 \<le> 2 ^ nat b" using bb by simp
  then have "(of_int (n + 1) :: rat) \<le> of_int (2 ^ nat b)" by (simp only: of_int_le_iff)
  moreover have "x < of_int (n + 1)" using floor_correct [of x] by (simp add: n_def)
  ultimately have "x < of_int (2 ^ nat b)" by simp
  also have "(of_int (2 ^ nat b) :: rat) = 2 powi b"
    using b1 by (simp add: power_int_nonneg_exp)
  finally have hi: "x < 2 powi b" .
  show ?thesis using lo hi e by simp
next
  case False
  define y where "y = 1 / x"
  have y1: "1 < y" using assms False by (simp add: y_def)
  define m where "m = \<lceil>y\<rceil>"
  have m2: "0 < m - 1"
  proof -
    have "1 < m" unfolding m_def using y1 by (simp add: less_ceiling_iff)
    then show ?thesis by simp
  qed
  define b where "b = bitlen (m - 1)"
  have bb: "2 ^ nat (b - 1) \<le> m - 1 \<and> m - 1 < 2 ^ nat b"
    unfolding b_def using bitlen_bounds [OF m2] .
  have b1: "1 \<le> b"
  proof (rule ccontr)
    assume "\<not> 1 \<le> b"
    then have "nat b = 0" by simp
    with bb m2 show False by simp
  qed
  have e: "ilog2 x = - b" using False by (simp add: ilog2_def b_def m_def y_def)
  have "y \<le> of_int m" by (simp add: m_def)
  also have "(of_int m :: rat) \<le> of_int (2 ^ nat b)"
    using bb by (simp only: of_int_le_iff) simp
  also have "(of_int (2 ^ nat b) :: rat) = 2 powi b"
    using b1 by (simp add: power_int_nonneg_exp)
  finally have yhi: "y \<le> 2 powi b" .
  have "(2::rat) powi (b - 1) = of_int (2 ^ nat (b - 1))"
    using b1 by (simp add: power_int_nonneg_exp)
  also have "\<dots> \<le> of_int (m - 1)" using bb by (simp only: of_int_le_iff)
  also have "\<dots> < y" unfolding m_def using ceiling_correct [of y] by simp
  finally have ylo: "2 powi (b - 1) < y" .
  have p: "0 < (2::rat) powi b" "0 < (2::rat) powi (b - 1)" by simp_all
  have lo: "2 powi (- b) \<le> x"
  proof -
    have "1 / (2 powi b) \<le> 1 / y"
      using yhi y1 by (simp add: frac_le)
    then show ?thesis using assms by (simp add: y_def power_int_minus_divide)
  qed
  have hi: "x < 2 powi (- b + 1)"
  proof -
    have "1 / y < 1 / (2 powi (b - 1))"
      using ylo p by (simp add: frac_less2)
    moreover have "(2::rat) powi (- b + 1) = 1 / (2 powi (b - 1))"
      using power_int_minus_divide [of "2::rat" "b - 1"] by simp
    ultimately show ?thesis using assms by (simp add: y_def)
  qed
  show ?thesis using lo hi e by simp
qed

lemma round_half_even_le: "y \<le> of_int j \<Longrightarrow> round_half_even y \<le> j"
proof -
  assume a: "y \<le> of_int j"
  have f: "\<lfloor>y\<rfloor> \<le> j" using a by (simp add: floor_le_iff)
  show ?thesis
  proof (cases "\<lfloor>y\<rfloor> = j")
    case True
    then have "y = of_int \<lfloor>y\<rfloor>" using a of_int_floor_le [of y] by simp
    then have "y - of_int \<lfloor>y\<rfloor> = 0" by simp
    then show ?thesis using True by (simp add: round_half_even_def Let_def)
  next
    case False
    then have "\<lfloor>y\<rfloor> + 1 \<le> j" using f by simp
    then show ?thesis by (auto simp: round_half_even_def Let_def)
  qed
qed

lemma round_half_even_ge: "of_int j \<le> y \<Longrightarrow> j \<le> round_half_even y"
proof -
  assume "of_int j \<le> y"
  then have "j \<le> \<lfloor>y\<rfloor>" by (simp add: le_floor_iff)
  then show ?thesis by (auto simp: round_half_even_def Let_def)
qed

lemma quantum_nonpos:
  assumes "0 < x" "x < 2 ^ 53"
  shows "max (ilog2 x) (- 1022) - 52 \<le> 0"
proof -
  have "2 powi (ilog2 x) \<le> x" using ilog2_bounds [OF assms(1)] by simp
  then have lt: "(2::rat) powi (ilog2 x) < 2 ^ 53" using assms(2) by simp
  have "ilog2 x < 53"
  proof (rule ccontr)
    assume "\<not> ilog2 x < 53"
    then have "(2::rat) powi (int 53) \<le> 2 powi (ilog2 x)"
      by (intro power_int_increasing) simp_all
    then have "(2::rat) ^ 53 \<le> 2 powi (ilog2 x)"
      by (simp only: power_int_of_nat)
    with lt show False by simp
  qed
  then show ?thesis by simp
qed

lemma round_mag_le_int:
  assumes x: "0 < x" and le: "x \<le> of_int N" and N: "N < 2 ^ 53"
  shows "\<exists>m. round_mag x = Some m \<and> 0 \<le> m \<and> m \<le> of_int N"
proof -
  define k where "k = max (ilog2 x) (- 1022) - 52"
  have "(of_int N :: rat) < of_int (2 ^ 53)" using N by (simp only: of_int_less_iff)
  then have x53: "x < 2 ^ 53" using le by simp
  have k0: "k \<le> 0" unfolding k_def using quantum_nonpos [OF x x53] .
  define M where "M = (2::int) ^ nat (- k)"
  have Mk: "(2::rat) powi k = 1 / of_int M"
    using k0 power_int_minus_divide [of "2::rat" "- k"]
    by (simp add: M_def power_int_nonneg_exp)
  have Mpos: "0 < M" by (simp add: M_def)
  define n where "n = round_half_even (x / 2 powi k)"
  have "x / 2 powi k = x * of_int M" by (simp add: Mk)
  also have "\<dots> \<le> of_int N * of_int M" using le Mpos by simp
  also have "\<dots> = of_int (N * M)" by simp
  finally have "n \<le> N * M" unfolding n_def by (rule round_half_even_le)
  then have "(of_int n :: rat) \<le> of_int (N * M)" by (simp only: of_int_le_iff)
  then have up: "of_int n * (2::rat) powi k \<le> of_int N"
    using Mpos by (simp add: Mk field_simps)
  have "0 \<le> x / 2 powi k" using x by simp
  then have "of_int 0 \<le> x / 2 powi k" by simp
  then have "0 \<le> n" unfolding n_def by (rule round_half_even_ge)
  then have lo: "0 \<le> of_int n * (2::rat) powi k" by simp
  have "round_mag x = Some (of_int n * 2 powi k)"
    using k0 by (simp add: round_mag_def Let_def k_def [symmetric] n_def [symmetric])
  then show ?thesis using up lo by simp
qed

lemma round_mag_nonneg:
  assumes x: "0 < x" and r: "round_mag x = Some m"
  shows "0 \<le> m"
proof -
  define k where "k = max (ilog2 x) (- 1022) - 52"
  define n where "n = round_half_even (x / 2 powi k)"
  have "0 \<le> x / 2 powi k" using x by simp
  then have "of_int 0 \<le> x / 2 powi k" by simp
  then have "0 \<le> n" unfolding n_def by (rule round_half_even_ge)
  then have "0 \<le> of_int n * (2::rat) powi k" by simp
  moreover have "m = of_int n * 2 powi k"
    using r by (simp add: round_mag_def Let_def k_def [symmetric] n_def [symmetric]
        split: if_splits)
  ultimately show ?thesis by simp
qed

lemma round_mag_ge_int:
  assumes x: "0 < x" and ge: "of_int N \<le> x" and N: "N < 2 ^ 53"
    and r: "round_mag x = Some m"
  shows "of_int N \<le> m"
proof -
  define k where "k = max (ilog2 x) (- 1022) - 52"
  define n where "n = round_half_even (x / 2 powi k)"
  have m: "m = of_int n * 2 powi k"
    using r by (simp add: round_mag_def Let_def k_def [symmetric] n_def [symmetric]
        split: if_splits)
  show ?thesis
  proof (cases "k \<le> 0")
    case True
    define M where "M = (2::int) ^ nat (- k)"
    have Mk: "(2::rat) powi k = 1 / of_int M"
      using True power_int_minus_divide [of "2::rat" "- k"]
      by (simp add: M_def power_int_nonneg_exp)
    have Mpos: "0 < M" by (simp add: M_def)
    have "(of_int (N * M) :: rat) = of_int N * of_int M" by simp
    also have "\<dots> \<le> x * of_int M" using ge Mpos by simp
    also have "\<dots> = x / 2 powi k" by (simp add: Mk)
    finally have "N * M \<le> n" unfolding n_def by (rule round_half_even_ge)
    then have "(of_int (N * M) :: rat) \<le> of_int n" by (simp only: of_int_le_iff)
    then show ?thesis using Mpos by (simp add: m Mk field_simps)
  next
    case False
    then have kpos: "0 < k" by simp
    then have e: "ilog2 x = k + 52" unfolding k_def by (simp add: max_def split: if_splits)
    have "2 powi (k + 52) \<le> x" using ilog2_bounds [OF x] e by simp
    then have "(2::rat) powi k * 2 ^ 52 \<le> x"
      by (simp add: power_int_add)
    then have "of_int (2 ^ 52) \<le> x / 2 powi k"
      by (simp add: field_simps)
    then have "2 ^ 52 \<le> n" unfolding n_def by (rule round_half_even_ge)
    then have n52: "(of_int (2 ^ 52) :: rat) \<le> of_int n" by (simp only: of_int_le_iff)
    have "(2::rat) powi 1 \<le> 2 powi k" using kpos by (intro power_int_increasing) simp_all
    then have k2: "(2::rat) \<le> 2 powi k" by simp
    have "(of_int N :: rat) < of_int (2 ^ 53)" using N by (simp only: of_int_less_iff)
    also have "(of_int (2 ^ 53) :: rat) = of_int (2 ^ 52) * 2" by simp
    also have "\<dots> \<le> of_int n * 2 powi k"
      using n52 k2 by (intro mult_mono) simp_all
    finally show ?thesis by (simp add: m)
  qed
qed


subsection \<open>Rounding against integers\<close>

lemma round_double_upper:
  assumes le: "x \<le> of_int N" and N0: "0 \<le> N" and N: "N < 2 ^ 53"
  shows "round_double x = NInf \<or> round_double x = NegZero \<or>
         (\<exists>m. round_double x = Fin m \<and> m \<le> of_int N)"
proof -
  consider "x = 0" | "0 < x" | "x < 0" by linarith
  then show ?thesis
  proof cases
    case 1
    then show ?thesis using N0 by (simp add: round_double_def)
  next
    case 2
    from round_mag_le_int [OF 2 le N] obtain m
      where "round_mag x = Some m" "m \<le> of_int N" by blast
    then show ?thesis using 2 by (simp add: round_double_def)
  next
    case 3
    then have p: "0 < - x" by simp
    show ?thesis
    proof (cases "round_mag (- x)")
      case None
      then show ?thesis using 3 by (simp add: round_double_def)
    next
      case (Some m)
      have "0 \<le> m" using round_mag_nonneg [OF p Some] .
      then have "- m \<le> of_int N" using N0 by (simp add: order_trans [of "- m" 0])
      then show ?thesis using 3 Some by (simp add: round_double_def)
    qed
  qed
qed

lemma round_double_lower:
  assumes ge: "of_int N \<le> x" and N0: "0 < N" and N: "N < 2 ^ 53"
  shows "round_double x = PInf \<or> (\<exists>m. round_double x = Fin m \<and> of_int N \<le> m)"
proof -
  have "(0::rat) < of_int N" using N0 by simp
  then have x: "0 < x" using ge by simp
  show ?thesis
  proof (cases "round_mag x")
    case None
    then show ?thesis using x by (simp add: round_double_def)
  next
    case (Some m)
    have "of_int N \<le> m" using round_mag_ge_int [OF x ge N Some] .
    then show ?thesis using x Some by (simp add: round_double_def)
  qed
qed

subsection \<open>The final bounds\<close>

lemma bound_of_int:
  "Math_max (Fin 400) (Math_min (Fin (of_int c)) (Fin 20000)) =
     Fin (of_int (max 400 (min c 20000)))"
proof -
  have a: "(of_int c :: rat) < 400 \<longleftrightarrow> c < 400"
    using of_int_less_iff [of c 400, where ?'a = rat] by simp
  have b: "(20000 :: rat) < of_int c \<longleftrightarrow> 20000 < c"
    using of_int_less_iff [of 20000 c, where ?'a = rat] by simp
  have e: "(of_int c :: rat) = 400 \<longleftrightarrow> c = 400"
    using of_int_eq_iff [of c 400, where ?'a = rat] by simp
  have f: "(of_int c :: rat) = 20000 \<longleftrightarrow> c = 20000"
    using of_int_eq_iff [of c 20000, where ?'a = rat] by simp
  show ?thesis
    by (auto simp: Math_min_def Math_max_def num_less_def val_def max_def min_def a b e f)
qed

lemma boundHeight_cases:
  "boundHeight h =
     (case h of
        NaN \<Rightarrow> NaN
      | PInf \<Rightarrow> Fin 20000
      | NInf \<Rightarrow> Fin 400
      | NegZero \<Rightarrow> Fin 400
      | Fin r \<Rightarrow> Fin (of_int (max 400 (min \<lceil>r\<rceil> 20000))))"
proof (cases h)
  case (Fin r)
  show ?thesis
  proof (cases "- 1 < r \<and> r < 0")
    case True
    then have "\<lceil>r\<rceil> = 0" by (simp add: ceiling_eq_iff)
    then show ?thesis using Fin True
      by (simp add: boundHeight_def Math_ceil_def Math_min_def Math_max_def num_less_def val_def)
  next
    case False
    then have "Math_ceil h = Fin (of_int \<lceil>r\<rceil>)"
      using Fin by (simp add: Math_ceil_def)
    then show ?thesis
      using Fin bound_of_int [of "\<lceil>r\<rceil>"] by (simp add: boundHeight_def)
  qed
qed (simp_all add: boundHeight_def Math_ceil_def Math_min_def Math_max_def num_less_def val_def)

lemma boundHeight_range:
  "h \<noteq> NaN \<Longrightarrow> \<exists>c. boundHeight h = Fin (of_int c) \<and> 400 \<le> c \<and> c \<le> 20000"
proof (cases h)
  case (Fin r)
  have "boundHeight h = Fin (of_int (max 400 (min \<lceil>r\<rceil> 20000)))"
    using Fin by (simp add: boundHeight_cases)
  moreover have "400 \<le> max 400 (min \<lceil>r\<rceil> 20000) \<and> max 400 (min \<lceil>r\<rceil> 20000) \<le> 20000"
    by simp
  ultimately show ?thesis by blast
next
  case PInf
  have "boundHeight h = Fin (of_int 20000)" using PInf by (simp add: boundHeight_cases)
  then show ?thesis by (intro exI [of _ 20000]) simp
next
  case NInf
  have "boundHeight h = Fin (of_int 400)" using NInf by (simp add: boundHeight_cases)
  then show ?thesis by (intro exI [of _ 400]) simp
next
  case NegZero
  have "boundHeight h = Fin (of_int 400)" using NegZero by (simp add: boundHeight_cases)
  then show ?thesis by (intro exI [of _ 400]) simp
qed simp

lemma bound_round_upper:
  assumes le: "x \<le> of_int N" and N4: "400 \<le> N" and N: "N < 2 ^ 53"
  shows "\<exists>c. boundHeight (round_double x) = Fin (of_int c) \<and> 400 \<le> c \<and> c \<le> min N 20000"
proof -
  have N0: "0 \<le> N" using N4 by simp
  from round_double_upper [OF le N0 N]
  consider "round_double x = NInf" | "round_double x = NegZero"
    | m where "round_double x = Fin m" "m \<le> of_int N" by blast
  then show ?thesis
  proof cases
    case 1
    then have "boundHeight (round_double x) = Fin (of_int 400)" by (simp add: boundHeight_cases)
    then show ?thesis using N4 by (intro exI [of _ 400]) simp
  next
    case 2
    then have "boundHeight (round_double x) = Fin (of_int 400)" by (simp add: boundHeight_cases)
    then show ?thesis using N4 by (intro exI [of _ 400]) simp
  next
    case 3
    have "\<lceil>m\<rceil> \<le> N" using 3(2) by (simp add: ceiling_le_iff)
    then have "max 400 (min \<lceil>m\<rceil> 20000) \<le> min N 20000" using N4 by simp
    moreover have "boundHeight (round_double x) = Fin (of_int (max 400 (min \<lceil>m\<rceil> 20000)))"
      using 3(1) by (simp add: boundHeight_cases)
    ultimately show ?thesis by (intro exI [of _ "max 400 (min \<lceil>m\<rceil> 20000)"]) simp
  qed
qed

lemma bound_round_lower:
  assumes ge: "of_int N \<le> x" and N0: "0 < N" and N: "N < 2 ^ 53"
  shows "\<exists>c. boundHeight (round_double x) = Fin (of_int c) \<and> min N 20000 \<le> c \<and> c \<le> 20000"
proof -
  from round_double_lower [OF ge N0 N]
  consider "round_double x = PInf" | m where "round_double x = Fin m" "of_int N \<le> m" by blast
  then show ?thesis
  proof cases
    case 1
    then have "boundHeight (round_double x) = Fin (of_int 20000)"
      by (simp add: boundHeight_cases)
    then show ?thesis by (intro exI [of _ 20000]) simp
  next
    case 2
    have "N \<le> \<lceil>m\<rceil>" using 2(2) by (simp add: le_ceiling_iff)
    then have "min N 20000 \<le> max 400 (min \<lceil>m\<rceil> 20000)" by simp
    moreover have "boundHeight (round_double x) = Fin (of_int (max 400 (min \<lceil>m\<rceil> 20000)))"
      using 2(1) by (simp add: boundHeight_cases)
    ultimately show ?thesis by (intro exI [of _ "max 400 (min \<lceil>m\<rceil> 20000)"]) simp
  qed
qed

lemma round_double_not_NaN: "round_double x \<noteq> NaN"
  by (simp add: round_double_def split: option.splits)

lemma Fin_of_int_inject: "Fin (of_int a) = Fin (of_int b) \<Longrightarrow> a = b"
  by simp

lemma add_40_finite:
  assumes nz: "r + 40 \<noteq> 0"
  shows "\<exists>a b. boundHeight (Fin r) = Fin (of_int a) \<and>
           boundHeight (round_double (r + 40)) = Fin (of_int b) \<and> a \<le> b \<and> b \<le> a + 40"
proof -
  define a where "a = max 400 (min \<lceil>r\<rceil> 20000)"
  have A: "boundHeight (Fin r) = Fin (of_int a)" by (simp add: boundHeight_cases a_def)
  obtain b where B: "boundHeight (round_double (r + 40)) = Fin (of_int b)"
    and b4: "400 \<le> b" and b2: "b \<le> 20000"
    using boundHeight_range [OF round_double_not_NaN [of "r + 40"]] by blast
  have lower: "a \<le> b"
  proof (cases "\<lceil>r\<rceil> \<le> 400")
    case True
    then show ?thesis using b4 by (simp add: a_def)
  next
    case False
    define c where "c = min \<lceil>r\<rceil> 20000"
    have c0: "0 < c" and c53: "c < 2 ^ 53" using False by (simp_all add: c_def)
    have "of_int c \<le> (of_int \<lceil>r\<rceil> :: rat)" by (simp add: c_def)
    also have "\<dots> < r + 1" using ceiling_correct [of r] by simp
    finally have "of_int c \<le> r + 40" by simp
    from bound_round_lower [OF this c0 c53] obtain b'
      where "boundHeight (round_double (r + 40)) = Fin (of_int b')" "min c 20000 \<le> b'"
      by blast
    then have "c \<le> b" using B by (simp add: c_def)
    then show ?thesis using False by (simp add: a_def c_def)
  qed
  have upper: "b \<le> a + 40"
  proof (cases "19960 \<le> \<lceil>r\<rceil>")
    case True
    then have "19960 \<le> a" by (simp add: a_def)
    then show ?thesis using b2 by simp
  next
    case False
    define N where "N = max 400 (\<lceil>r\<rceil> + 40)"
    have N4: "400 \<le> N" and N53: "N < 2 ^ 53" using False by (simp_all add: N_def)
    have "r + 40 \<le> of_int (\<lceil>r\<rceil> + 40)" by simp
    also have "(of_int (\<lceil>r\<rceil> + 40) :: rat) \<le> of_int N"
      by (simp only: of_int_le_iff) (simp add: N_def)
    finally have "r + 40 \<le> of_int N" .
    from bound_round_upper [OF this N4 N53] obtain b'
      where "boundHeight (round_double (r + 40)) = Fin (of_int b')" "b' \<le> min N 20000"
      by blast
    then have "b \<le> N" using B by simp
    then show ?thesis using False by (simp add: a_def N_def)
  qed
  show ?thesis using A B lower upper by blast
qed

lemma add_40_bounds:
  assumes "h \<noteq> NaN"
  shows "\<exists>a b. boundHeight h = Fin (of_int a) \<and>
           boundHeight (num_add h (Fin 40)) = Fin (of_int b) \<and> a \<le> b \<and> b \<le> a + 40"
proof (cases h)
  case NaN
  then show ?thesis using assms by simp
next
  case PInf
  then have "boundHeight h = Fin (of_int 20000)"
    "boundHeight (num_add h (Fin 40)) = Fin (of_int 20000)"
    by (simp_all add: boundHeight_cases num_add_def is_inf_def)
  then show ?thesis by (intro exI [of _ 20000]) simp
next
  case NInf
  then have "boundHeight h = Fin (of_int 400)"
    "boundHeight (num_add h (Fin 40)) = Fin (of_int 400)"
    by (simp_all add: boundHeight_cases num_add_def is_inf_def)
  then show ?thesis by (intro exI [of _ 400]) simp
next
  case NegZero
  have s: "num_add h (Fin 40) = round_double (0 + 40)"
    using NegZero by (simp add: num_add_def is_inf_def val_def)
  have "boundHeight (Fin 0) = Fin (of_int 400)" by (simp add: boundHeight_cases)
  moreover have "boundHeight h = Fin (of_int 400)" using NegZero by (simp add: boundHeight_cases)
  ultimately show ?thesis using add_40_finite [of 0] s by simp
next
  case (Fin r)
  show ?thesis
  proof (cases "r + 40 = 0")
    case True
    then have r: "r = - 40" by simp
    have "num_add h (Fin 40) = Fin 0"
      using Fin True by (simp add: num_add_def is_inf_def val_def signed_zero_def)
    then have "boundHeight (num_add h (Fin 40)) = Fin (of_int 400)"
      by (simp add: boundHeight_cases)
    moreover have "boundHeight h = Fin (of_int 400)"
      using Fin r by (simp add: boundHeight_cases)
    ultimately show ?thesis by (intro exI [of _ 400]) simp
  next
    case False
    then have "num_add h (Fin 40) = round_double (r + 40)"
      using Fin by (simp add: num_add_def is_inf_def val_def)
    then show ?thesis using add_40_finite [OF False] Fin by simp
  qed
qed

lemma add_40_exact:
  assumes n4: "400 \<le> n" and n2: "n \<le> 19960"
  shows "boundHeight (Fin (of_int n)) = Fin (of_int n) \<and>
         boundHeight (num_add (Fin (of_int n)) (Fin 40)) = Fin (of_int (n + 40))"
proof -
  have A: "boundHeight (Fin (of_int n)) = Fin (of_int n)"
    using n4 n2 by (simp add: boundHeight_cases)
  have "(of_int n :: rat) + 40 = of_int (n + 40)" by simp
  moreover have "(of_int (n + 40) :: rat) \<noteq> 0" using n4 by (simp only: of_int_eq_0_iff; simp)
  ultimately have s: "num_add (Fin (of_int n)) (Fin 40) = round_double (of_int (n + 40))"
    by (simp add: num_add_def is_inf_def val_def)
  have p: "0 < n + 40" "400 \<le> n + 40" "n + 40 < 2 ^ 53" using n4 n2 by simp_all
  from bound_round_upper [OF order_refl p(2) p(3)] obtain c
    where c: "boundHeight (round_double (of_int (n + 40))) = Fin (of_int c)"
      and cu: "c \<le> min (n + 40) 20000" by blast
  from bound_round_lower [OF order_refl p(1) p(3)] obtain c'
    where c': "boundHeight (round_double (of_int (n + 40))) = Fin (of_int c')"
      and cl: "min (n + 40) 20000 \<le> c'" by blast
  have "c = c'" using c c' by simp
  then have "c = n + 40" using cu cl n2 by simp
  then show ?thesis using A s c by simp
qed

subsection \<open>Values that are not NaN\<close>

lemma nonneg_not_NaN: "nonneg a \<Longrightarrow> a \<noteq> NaN"
  by (auto simp: nonneg_def)

lemma nonneg_round_double: "0 \<le> x \<Longrightarrow> nonneg (round_double x)"
proof -
  assume x: "0 \<le> x"
  show ?thesis
  proof (cases "x = 0")
    case True
    then show ?thesis by (simp add: round_double_def nonneg_def)
  next
    case False
    then have p: "0 < x" using x by simp
    show ?thesis
    proof (cases "round_mag x")
      case None
      then show ?thesis using p by (simp add: round_double_def nonneg_def)
    next
      case (Some m)
      then show ?thesis using p round_mag_nonneg [OF p Some]
        by (simp add: round_double_def nonneg_def)
    qed
  qed
qed

lemma nonneg_add: "nonneg a \<Longrightarrow> nonneg b \<Longrightarrow> nonneg (num_add a b)"
proof -
  assume a: "nonneg a" and b: "nonneg b"
  consider "a = PInf" | "b = PInf" "a \<noteq> PInf" | r s where "a = Fin r" "b = Fin s" "0 \<le> r" "0 \<le> s"
    using a b by (auto simp: nonneg_def split: number.splits)
  then show ?thesis
  proof cases
    case 1
    then show ?thesis using b by (auto simp: num_add_def is_inf_def nonneg_def)
  next
    case 2
    then show ?thesis using a by (auto simp: num_add_def is_inf_def nonneg_def)
  next
    case 3
    then show ?thesis using nonneg_round_double [of "r + s"]
      by (simp add: num_add_def is_inf_def val_def signed_zero_def nonneg_def)
  qed
qed

lemma nonneg_mul_pos: "nonneg a \<Longrightarrow> 0 < c \<Longrightarrow> nonneg (num_mul a (Fin c))"
proof -
  assume a: "nonneg a" and c: "0 < c"
  consider "a = PInf" | "a = Fin 0" | r where "a = Fin r" "0 < r"
    using a by (cases a) (auto simp: nonneg_def less_le)
  then show ?thesis
  proof cases
    case 1
    then show ?thesis using c
      by (simp add: num_mul_def is_inf_def is_zero_def negative_def signed_inf_def nonneg_def)
  next
    case 2
    then show ?thesis using c
      by (simp add: num_mul_def is_inf_def is_zero_def negative_def signed_zero_def nonneg_def)
  next
    case 3
    then have "0 \<le> r * c" using c by simp
    then show ?thesis using 3 c nonneg_round_double [of "r * c"]
      by (simp add: num_mul_def is_inf_def is_zero_def val_def)
  qed
qed

lemma literal_1_2_value: "literal_1_2 = Fin (5404319552844595 / 4503599627370496)"
  by code_simp

lemma num_div_not_NaN:
  "a \<noteq> NaN \<Longrightarrow> b \<noteq> NaN \<Longrightarrow> \<not> (is_zero a \<and> is_zero b) \<Longrightarrow> \<not> (is_inf a \<and> is_inf b) \<Longrightarrow>
   num_div a b \<noteq> NaN"
  by (simp add: num_div_def signed_inf_def signed_zero_def round_double_not_NaN)

lemma Math_floor_not_NaN: "a \<noteq> NaN \<Longrightarrow> Math_floor a \<noteq> NaN"
  by (cases a) (simp_all add: Math_floor_def)

lemma Math_ceil_not_NaN: "a \<noteq> NaN \<Longrightarrow> Math_ceil a \<noteq> NaN"
  by (cases a) (simp_all add: Math_ceil_def)

lemma Math_max_1_nonneg: "y \<noteq> NaN \<Longrightarrow> nonneg (Math_max (Fin 1) y)"
  by (cases y) (auto simp: Math_max_def num_less_def val_def nonneg_def)

lemma paragraphLines_nonneg:
  assumes "mcw \<noteq> NaN" "0 < textLength"
  shows "nonneg (paragraphLines textLength mcw)"
proof -
  define cpl where "cpl = Math_floor (num_div mcw (Fin 9))"
  have "num_div mcw (Fin 9) \<noteq> NaN"
    using assms(1) by (intro num_div_not_NaN) (simp_all add: is_zero_def is_inf_def)
  then have cpl: "cpl \<noteq> NaN" unfolding cpl_def by (rule Math_floor_not_NaN)
  have "num_div (Fin (of_nat textLength)) cpl \<noteq> NaN"
    using cpl assms(2) by (intro num_div_not_NaN) (simp_all add: is_zero_def is_inf_def)
  then have "Math_ceil (num_div (Fin (of_nat textLength)) cpl) \<noteq> NaN"
    by (rule Math_ceil_not_NaN)
  then show ?thesis
    by (simp add: paragraphLines_def Let_def cpl_def [symmetric] Math_max_1_nonneg)
qed

lemma getHeadingSize_pos: "0 < getHeadingSize l"
  by (simp add: getHeadingSize_def)

lemma block_height_nonneg:
  assumes m: "mcw \<noteq> NaN" and g: "nonneg (gap sp)" and c: "nonneg (codePadding sp)"
  shows "nonneg (block_height sp mcw b)"
proof -
  have n: "nonneg (Fin (of_nat k))" for k by (simp add: nonneg_def)
  have code: "nonneg (num_add (num_add (num_mul (Fin (of_nat k)) (Fin 20))
                                      (num_mul (codePadding sp) (Fin 2))) (gap sp))" for k
    using n c g by (intro nonneg_add nonneg_mul_pos) simp_all
  have h0: "nonneg (Fin (getHeadingSize l))" for l
    using getHeadingSize_pos [of l] by (simp add: nonneg_def)
  have head: "nonneg (num_add (num_mul (Fin (getHeadingSize l)) literal_1_2)
                              (num_mul (gap sp) (Fin (1 / 2))))" for l
    unfolding literal_1_2_value using h0 g by (intro nonneg_add nonneg_mul_pos) simp_all
  have para: "nonneg (num_add (num_mul (paragraphLines k mcw) (Fin 24)) (gap sp))"
    if "0 < k" for k
    using paragraphLines_nonneg [OF m that] g by (intro nonneg_add nonneg_mul_pos) simp_all
  have lst: "nonneg (num_add (num_mul (Fin (of_nat k)) (Fin 28)) (gap sp))" for k
    using n g by (intro nonneg_add nonneg_mul_pos) simp_all
  have fixed: "nonneg (num_add (Fin q) (gap sp))" if "0 \<le> q" for q
    using g that by (intro nonneg_add) (simp_all add: nonneg_def)
  show ?thesis
    using code head para lst fixed
    by (auto simp: block_height_def split: option.splits)
qed

lemma estimate_loop_nonneg:
  "mcw \<noteq> NaN \<Longrightarrow> nonneg (gap sp) \<Longrightarrow> nonneg (codePadding sp) \<Longrightarrow> nonneg h \<Longrightarrow>
   nonneg (estimate_loop sp mcw blocks h)"
  by (induction blocks arbitrary: h) (simp_all add: nonneg_add block_height_nonneg)

lemma accumulatedHeight_nonneg:
  assumes "mcw \<noteq> NaN" "nonneg (padding (spacing th))" "nonneg (gap (spacing th))"
    "nonneg (codePadding (spacing th))"
  shows "nonneg (accumulatedHeight th mcw wm blocks)"
proof -
  have "nonneg (num_mul (padding (spacing th)) (Fin 2))"
    using assms(2) by (intro nonneg_mul_pos) simp_all
  then have "nonneg (estimate_loop (spacing th) mcw blocks (num_mul (padding (spacing th)) (Fin 2)))"
    using assms by (intro estimate_loop_nonneg)
  moreover have "nonneg (Fin 40)" by (simp add: nonneg_def)
  ultimately show ?thesis
    by (simp add: accumulatedHeight_def Let_def nonneg_add)
qed

section \<open>The normalizer's invariants\<close>

subsection \<open>A property of every produced block\<close>

lemma forest_all_unfold:
  "forest_all P b =
     (P b \<and> (case children b of None \<Rightarrow> True | Some cs \<Rightarrow> list_all (forest_all P) cs))"
  by (cases b) simp

lemma tree_all_unfold:
  "tree_all Q n = (Q n \<and> list_all (tree_all Q) (nchildren n))"
  by (cases n) simp

lemma tree_all_True: "tree_all (\<lambda>_. True) n"
  by (induction "\<lambda>_::node. True" n rule: tree_all.induct) (simp add: list_all_iff)

lemma flush_forest:
  "list_all (forest_all P) result \<Longrightarrow> (currentText \<noteq> [] \<Longrightarrow> P (text_block currentText))
     \<Longrightarrow> list_all (forest_all P) (flush result currentText)"
  by (simp add: flush_def text_block_def)

lemma inline_forest_all:
  assumes "inline_closed P"
  shows "list_all (forest_all P) (normalizeInlineContent nodes)"
    and "list_all (forest_all P) result \<Longrightarrow>
         list_all (forest_all P) (fst (inline_loop nodes result cur))"
proof (induction nodes and nodes result cur rule: normalizeInlineContent_inline_loop.induct)
  case (1 nodes)
  have "list_all (forest_all P) (fst (inline_loop nodes [] []))"
    using 1 by simp
  then show ?case
    using assms
    by (auto simp: normalizeInlineContent.simps [of nodes] inline_closed_def
          split: prod.splits intro!: flush_forest)
next
  case (2 result currentText)
  then show ?case by simp
next
  case (3 n rest result currentText)
  have fl: "list_all (forest_all P) (flush result currentText)"
    using "3.prems" assms by (auto simp: inline_closed_def intro!: flush_forest)
  show ?case
    using "3.IH" "3.prems" fl assms
    by (simp add: inline_closed_def)
qed

lemma tree_all_root_of:
  "block_closed Q P \<Longrightarrow> list_all (tree_all Q) cs \<Longrightarrow> tree_all Q (root_of cs)"
  using tree_all_unfold [of Q "root_of cs"]
  by (simp add: block_closed_def root_of_def)

lemma block_forest_all:
  assumes ic: "inline_closed P" and bc: "block_closed Q P"
  shows "tree_all Q n \<Longrightarrow> list_all (forest_all P) (normalizeAST n)"
    and "tree_all Q n \<Longrightarrow> list_all (forest_all P) (normalizeNode n)"
proof (induction n and n rule: normalizeAST_normalizeNode.induct)
  case (1 n)
  have kids: "list_all (tree_all Q) (nchildren n)"
    using "1.prems" tree_all_unfold [of Q n] by simp
  show ?case
  proof (cases "ntype n = ''root''")
    case True
    have "\<forall>x \<in> set (nchildren n). list_all (forest_all P) (normalizeNode x)"
      using "1.IH"(1) True kids by (simp add: list_all_iff)
    then show ?thesis
      using True by (simp add: normalizeAST.simps [of n] list_all_iff)
  next
    case False
    then show ?thesis
      using "1.IH"(2) "1.prems" by (simp add: normalizeAST.simps [of n])
  qed
next
  case (2 n)
  have qn: "Q n" and kids: "list_all (tree_all Q) (nchildren n)"
    using "2.prems" tree_all_unfold [of Q n] by simp_all
  have inl: "list_all (forest_all P) (normalizeInlineContent (nchildren n))"
    using inline_forest_all(1) [OF ic] .
  have bq: "ntype n = ''blockquote'' \<Longrightarrow>
      list_all (forest_all P) (normalizeAST (root_of (nchildren n)))"
    using "2.IH"(1) tree_all_root_of [OF bc kids] by simp
  have li: "ntype n = ''list'' \<Longrightarrow> item \<in> set (nchildren n) \<Longrightarrow>
      list_all (forest_all P) (normalizeAST (root_of (nchildren item)))" for item
  proof -
    assume t: "ntype n = ''list''" and m: "item \<in> set (nchildren n)"
    have "tree_all Q item" using kids m by (simp add: list_all_iff)
    then have "list_all (tree_all Q) (nchildren item)"
      using tree_all_unfold [of Q item] by simp
    then have "tree_all Q (root_of (nchildren item))"
      by (rule tree_all_root_of [OF bc])
    then show ?thesis using "2.IH"(2) t m by simp
  qed
  show ?case
    using qn inl bq li bc
    by (auto simp: normalizeNode.simps [of n] block_closed_def list_all_iff)
qed

subsection \<open>Heading levels\<close>

lemma heading_level_inline_closed: "inline_closed heading_level_ok"
  by (simp add: inline_closed_def heading_level_ok_def text_block_def)

lemma heading_level_block_closed: "block_closed heading_depth_ok heading_level_ok"
  by (auto simp: block_closed_def heading_level_ok_def heading_depth_ok_def root_of_def)

text \<open>
  Claim C1, as the code has it. \<open>normalizeNode\<close> copies the depth of a heading node into
  the level of the Heading block without looking at it: a heading node yields exactly one
  Heading block whose level is the node's depth. Hence, when every heading node of the
  syntax tree has a depth in [1,6] (the range of the parser's depth field), every Heading
  block of the normalized forest, at every nesting level, has a level in [1,6]. Nothing is
  clamped, and there is no default level.
\<close>

theorem heading_level_copied:
  "(ntype n = ''heading'' \<longrightarrow>
      map btype (normalizeNode n) = [''heading''] \<and> map level (normalizeNode n) = [ndepth n]) \<and>
   (tree_all heading_depth_ok n \<longrightarrow> list_all (forest_all heading_level_ok) (normalizeAST n))"
  using block_forest_all(1) [OF heading_level_inline_closed heading_level_block_closed, of n]
  by (simp add: normalizeNode.simps [of n])

theorem heading_level_copied_witness:
  "ntype (heading_node 3 [leaf ''text'' ''Title'']) = ''heading'' \<and>
   tree_all heading_depth_ok (parent ''root'' [heading_node 3 [leaf ''text'' ''Title'']]) \<and>
   map level (normalizeNode (heading_node 3 [leaf ''text'' ''Title''])) = [Some 3] \<and>
   list_all (forest_all heading_level_ok)
     (normalizeAST (parent ''root'' [heading_node 3 [leaf ''text'' ''Title'']]))"
proof -
  have t: "ntype (heading_node 3 [leaf ''text'' ''Title'']) = ''heading''"
    by (simp add: heading_node_def)
  have d: "ndepth (heading_node 3 [leaf ''text'' ''Title'']) = Some 3"
    by (simp add: heading_node_def)
  have h: "tree_all heading_depth_ok (parent ''root'' [heading_node 3 [leaf ''text'' ''Title'']])"
    by (simp add: parent_def heading_node_def leaf_def heading_depth_ok_def)
  show ?thesis
    using t d h
      heading_level_copied [of "heading_node 3 [leaf ''text'' ''Title'']"]
      heading_level_copied [of "parent ''root'' [heading_node 3 [leaf ''text'' ''Title'']]"]
    by simp
qed

text \<open>
  Claim C1 as stated fails: a heading node of depth 7 is normalized to a Heading block of
  level 7.
\<close>

theorem heading_level_unclamped:
  "\<not> list_all (forest_all heading_level_ok) (normalizeAST (heading_node 7 [])) \<and>
   map btype (normalizeAST (heading_node 7 [])) = [''heading''] \<and>
   map level (normalizeAST (heading_node 7 [])) = [Some 7]"
  by (simp add: normalizeAST.simps normalizeNode.simps normalizeInlineContent.simps
        heading_node_def flush_def heading_level_ok_def)

subsection \<open>Text blocks are never empty\<close>

lemma text_nonempty_inline_closed: "inline_closed text_nonempty"
  by (simp add: inline_closed_def text_nonempty_def text_block_def)

lemma text_nonempty_block_closed: "block_closed (\<lambda>_. True) text_nonempty"
  by (simp add: block_closed_def text_nonempty_def)

text \<open>
  Claim C10. Every Text block that inline normalization produces, and every Text block at
  any nesting level of the forest that \<open>normalizeAST\<close> produces, has a content that is
  present and is not the empty string: the pending text is pushed only when it is truthy.
\<close>

theorem text_blocks_nonempty:
  "list_all (forest_all text_nonempty) (normalizeInlineContent nodes) \<and>
   list_all (forest_all text_nonempty) (normalizeAST n)"
  using inline_forest_all(1) [OF text_nonempty_inline_closed]
    block_forest_all(1) [OF text_nonempty_inline_closed text_nonempty_block_closed tree_all_True]
  by simp

theorem text_blocks_nonempty_witness:
  "normalizeInlineContent [leaf ''text'' [], leaf ''inlineCode'' ''x'', leaf ''text'' []] =
     [Block ''inlineCode'' (Some ''x'') None None None None None None None None None None] \<and>
   list_all (forest_all text_nonempty)
     (normalizeInlineContent [leaf ''text'' [], leaf ''inlineCode'' ''x'', leaf ''text'' []])"
  using text_blocks_nonempty
    [of "[leaf ''text'' [], leaf ''inlineCode'' ''x'', leaf ''text'' []]"]
  by (simp add: normalizeInlineContent.simps leaf_def text_value_def flush_def)

subsection \<open>Unknown inline nodes\<close>

lemma inline_loop_append:
  "inline_loop (xs @ ys) result cur =
     (case inline_loop xs result cur of (r, c) \<Rightarrow> inline_loop ys r c)"
  by (induction xs arbitrary: result cur) simp_all

lemma inline_loop_unknown:
  "unknown_inline u \<Longrightarrow> inline_loop (u # rest) result cur = inline_loop rest result cur"
  by (simp add: unknown_inline_def)

text \<open>
  Claim C9. An inline node whose type is none of text, inlineCode, strong, emphasis, link,
  image and break leaves both loop variables as they are (no block is pushed, the pending
  text is not flushed); removing it from an inline sequence does not change the result; and
  the text before and the text after it end up in one Text block (when there is any text).
\<close>

theorem unknown_inline_skipped:
  "unknown_inline u \<Longrightarrow>
     inline_loop (u # rest) result cur = inline_loop rest result cur \<and>
     normalizeInlineContent (xs @ u # ys) = normalizeInlineContent (xs @ ys) \<and>
     normalizeInlineContent [leaf ''text'' a, u, leaf ''text'' b] = flush [] (a @ b)"
proof -
  assume u: "unknown_inline u"
  have 1: "inline_loop (u # rest) result cur = inline_loop rest result cur" for rest result cur
    using u by (rule inline_loop_unknown)
  have 2: "normalizeInlineContent (xs @ u # ys) = normalizeInlineContent (xs @ ys)"
    by (simp add: normalizeInlineContent.simps [of "xs @ u # ys"]
          normalizeInlineContent.simps [of "xs @ ys"] inline_loop_append 1
          del: inline_loop.simps)
  have "inline_loop [leaf ''text'' a, u, leaf ''text'' b] [] [] =
        inline_loop (u # [leaf ''text'' b]) [] a"
    by (simp add: leaf_def text_value_def)
  also have "\<dots> = inline_loop [leaf ''text'' b] [] a"
    by (rule 1)
  also have "\<dots> = ([], a @ b)"
    by (simp add: leaf_def text_value_def)
  finally have 3: "normalizeInlineContent [leaf ''text'' a, u, leaf ''text'' b] = flush [] (a @ b)"
    by (simp add: normalizeInlineContent.simps [of "[leaf ''text'' a, u, leaf ''text'' b]"])
  show ?thesis using 1 2 3 by simp
qed

theorem unknown_inline_skipped_witness:
  "unknown_inline (leaf ''footnoteReference'' ''1'') \<and>
   normalizeInlineContent
     [leaf ''text'' ''ab'', leaf ''footnoteReference'' ''1'', leaf ''text'' ''cd''] =
     [text_block ''abcd'']"
proof -
  have h: "unknown_inline (leaf ''footnoteReference'' ''1'')"
    by (simp add: unknown_inline_def leaf_def)
  show ?thesis
    using h unknown_inline_skipped [OF h, of "[]" "[]" "[]" "[]" "[]" "''ab''" "''cd''"]
    by (simp add: flush_def)
qed

subsection \<open>No adjacent text siblings\<close>




















section \<open>The estimated height\<close>

subsection \<open>Paragraphs\<close>

lemma paragraph_content_absent:
  "ntype n = ''paragraph'' \<Longrightarrow>
   map btype (normalizeNode n) = [''paragraph''] \<and> map content (normalizeNode n) = [None]"
  by (simp add: normalizeNode.simps [of n])

lemma paragraph_height_constant:
  "btype b = ''paragraph'' \<Longrightarrow> content b = None \<Longrightarrow>
   block_height sp mcw b = num_add (num_mul (paragraphLines 100 mcw) (Fin 24)) (gap sp)"
  by (simp add: block_height_def)

lemma single_paragraph_blocks:
  "normalizeAST (parent ''root'' [parent ''paragraph'' [leaf ''text'' s]]) =
     [Block ''paragraph'' None (Some (flush [] s)) None None None None None None None None None]"
  by (simp add: normalizeAST.simps normalizeNode.simps normalizeInlineContent.simps
        parent_def leaf_def text_value_def)

lemma default_paragraph_height:
  "num_add (num_mul (paragraphLines 100 (Fin 1120)) (Fin 24)) (Fin 24) = Fin 48"
  by code_simp

lemma light_paragraph_total:
  "num_add (num_mul (Fin 40) (Fin 2)) (Fin 48) = Fin 128"
  by code_simp

text \<open>
  Claim C2, evaluated on the code. A Paragraph block made by the normalizer has no
  \<^verbatim>\<open>content\<close> (its text is in its children), so the estimator's
  \<^verbatim>\<open>block.content?.length || 100\<close> is 100 for every paragraph. For a document of one
  paragraph with any text \<open>s\<close>, at content width 1120 and the light theme, the accumulated
  height is 128 and the final height 400, whatever the length of \<open>s\<close>; for 5000
  characters the rule of the specification gives 1088.
\<close>

theorem paragraph_estimate_ignores_text:
  "map content (normalizeAST (parent ''root'' [parent ''paragraph'' [leaf ''text'' s]])) =
     [None] \<and>
   accumulatedHeight lightTheme (Fin 1120) None
     (normalizeAST (parent ''root'' [parent ''paragraph'' [leaf ''text'' s]])) = Fin 128 \<and>
   estimateHeight lightTheme (Fin 1120) None
     (normalizeAST (parent ''root'' [parent ''paragraph'' [leaf ''text'' s]])) = Fin 400 \<and>
   val (padding (spacing lightTheme)) * 2 +
     spec_paragraph_height 5000 1120 (val (gap (spacing lightTheme))) = 1088"
proof -
  let ?b = "Block ''paragraph'' None (Some (flush [] s)) None None None None None None None None None"
  let ?sp = "\<lparr>padding = Fin 40, gap = Fin 24, blockquotePadding = Fin 20, codePadding = Fin 16\<rparr>"
  have h: "block_height ?sp (Fin 1120) ?b = Fin 48"
    using paragraph_height_constant [of ?b ?sp "Fin 1120"]
    by (simp add: default_paragraph_height)
  have acc: "accumulatedHeight lightTheme (Fin 1120) None [?b] = Fin 128"
    by (simp add: accumulatedHeight_def h light_paragraph_total lightTheme_def)
  have est: "estimateHeight lightTheme (Fin 1120) None [?b] = Fin 400"
    by (simp add: estimateHeight_def acc boundHeight_cases)
  have "\<lfloor>(1120::rat) / 9\<rfloor> = 124" by (simp add: floor_eq_iff)
  moreover have "\<lceil>(5000::rat) / 124\<rceil> = 41" by (simp add: ceiling_eq_iff)
  ultimately have spec: "spec_paragraph_height 5000 1120 24 = 1008"
    by (simp add: spec_paragraph_height_def)
  show ?thesis
    using acc est spec by (simp add: single_paragraph_blocks lightTheme_def val_def)
qed

theorem paragraph_estimate_ignores_text_witness:
  "estimateHeight lightTheme (Fin 1120) None
     (normalizeAST (parent ''root''
        [parent ''paragraph'' [leaf ''text'' (replicate 5000 (CHR ''a''))]])) = Fin 400 \<and>
   estimateHeight lightTheme (Fin 1120) None
     (normalizeAST (parent ''root'' [parent ''paragraph'' [leaf ''text'' ''a'']])) = Fin 400"
  using paragraph_estimate_ignores_text [of "replicate 5000 (CHR ''a'')"]
    paragraph_estimate_ignores_text [of "''a''"]
  by simp

subsection \<open>The bounds of the estimate\<close>

lemma boundHeight_spec:
  "h \<noteq> NaN \<Longrightarrow>
   \<exists>c. spec_final_height h = Some c \<and> boundHeight h = Fin (of_int c) \<and>
       400 \<le> c \<and> c \<le> 20000"
  by (cases h) (auto simp: boundHeight_cases spec_final_height_def spec_clamp_def)

text \<open>
  Claim C5, as the code has it. In double-precision arithmetic the estimator's output is
  the specification's clamp of the rounded-up accumulated height, an integer from 400 to
  20000, whenever the accumulated height is a number (finite or infinite); when the
  accumulated height is \<open>NaN\<close>, so is the output, since \<^verbatim>\<open>Math.ceil\<close>,
  \<^verbatim>\<open>Math.min\<close> and \<^verbatim>\<open>Math.max\<close> all return \<open>NaN\<close> for it. The accumulated height
  is a number for every document and watermark setting when the content width is not
  \<open>NaN\<close> and the theme's padding, gap and code padding are numbers that are not negative
  (as in both built-in themes).
\<close>

theorem estimate_within_bounds:
  "(accumulatedHeight th mcw wm blocks \<noteq> NaN \<longrightarrow>
      (\<exists>c. spec_final_height (accumulatedHeight th mcw wm blocks) = Some c \<and>
           estimateHeight th mcw wm blocks = Fin (of_int c) \<and> 400 \<le> c \<and> c \<le> 20000)) \<and>
   (accumulatedHeight th mcw wm blocks = NaN \<longrightarrow> estimateHeight th mcw wm blocks = NaN) \<and>
   (mcw \<noteq> NaN \<and> nonneg (padding (spacing th)) \<and> nonneg (gap (spacing th)) \<and>
    nonneg (codePadding (spacing th)) \<longrightarrow>
      accumulatedHeight th mcw wm blocks \<noteq> NaN)"
  using boundHeight_spec [of "accumulatedHeight th mcw wm blocks"]
    nonneg_not_NaN [OF accumulatedHeight_nonneg [of mcw th wm blocks]]
  by (auto simp: estimateHeight_def boundHeight_cases)

theorem estimate_within_bounds_witness:
  "Fin 1120 \<noteq> NaN \<and> nonneg (padding (spacing lightTheme)) \<and>
   nonneg (gap (spacing lightTheme)) \<and> nonneg (codePadding (spacing lightTheme)) \<and>
   accumulatedHeight lightTheme (Fin 1120) None [paragraph_block] = Fin 128 \<and>
   spec_final_height (Fin 128) = Some 400 \<and>
   estimateHeight lightTheme (Fin 1120) None [paragraph_block] = Fin 400 \<and>
   accumulatedHeight lightTheme (Fin 0) None [paragraph_block] = PInf \<and>
   estimateHeight lightTheme (Fin 0) None [paragraph_block] = Fin 20000 \<and>
   accumulatedHeight nan_gap_theme (Fin 1120) None [paragraph_block] = NaN \<and>
   estimateHeight nan_gap_theme (Fin 1120) None [paragraph_block] = NaN"
proof -
  have n: "nonneg (padding (spacing lightTheme)) \<and> nonneg (gap (spacing lightTheme)) \<and>
      nonneg (codePadding (spacing lightTheme))"
    by (simp add: lightTheme_def nonneg_def)
  have a: "accumulatedHeight lightTheme (Fin 1120) None [paragraph_block] = Fin 128"
    by code_simp
  have b: "accumulatedHeight lightTheme (Fin 0) None [paragraph_block] = PInf"
    by code_simp
  have c: "accumulatedHeight nan_gap_theme (Fin 1120) None [paragraph_block] = NaN"
    by code_simp
  have s: "spec_final_height (Fin 128) = Some 400 \<and> spec_final_height PInf = Some 20000"
    by (simp add: spec_final_height_def spec_clamp_def)
  show ?thesis
    using n a b c s
      estimate_within_bounds [of lightTheme "Fin 1120" None "[paragraph_block]"]
      estimate_within_bounds [of lightTheme "Fin 0" None "[paragraph_block]"]
      estimate_within_bounds [of nan_gap_theme "Fin 1120" None "[paragraph_block]"]
    by simp
qed

text \<open>
  Claim C5 as the specification states it (for every theme) fails: a theme object is taken
  as it is, and with a gap that is \<open>NaN\<close> the document of one thematic break has the
  estimate \<open>NaN\<close>, which is also the height of the result; so has a code block under a
  theme whose padding is \<open>Infinity\<close> and whose code padding is \<open>-Infinity\<close>.
\<close>

theorem estimate_not_a_number:
  "estimateHeight nan_gap_theme (Fin 1120) None
     (normalizeAST (parent ''root'' [parent ''thematicBreak'' []])) = NaN \<and>
   rheight (renderMarkdownToImage no_files
              (\<lambda>s. parent ''root'' [parent ''thematicBreak'' []])
              ((default_options ''---'') \<lparr>theme_opt := Some (ThemeObject nan_gap_theme)\<rparr>)) = NaN \<and>
   estimateHeight infinite_theme (Fin 1120) None
     (normalizeAST (parent ''root'' [leaf ''code'' ''x''])) = NaN"
  by code_simp

subsection \<open>The watermark reserve\<close>

lemma watermark_off: "normalizeWatermark (Some (WBool False)) th = None"
  by (simp add: normalizeWatermark_def)

lemma watermark_on:
  "watermark_requested cfg \<Longrightarrow>
   \<exists>wm. normalizeWatermark cfg th = Some wm \<and> wenabled wm = Some True"
  by (auto simp: watermark_requested_def normalizeWatermark_def DEFAULT_WATERMARK_def
        split: option.splits watermark_option.splits bool.splits)

lemma watermark_adds_40:
  "accumulatedHeight th mcw (Some wm) blocks =
     num_add (accumulatedHeight th mcw None blocks) (Fin 40)"
  by (simp add: accumulatedHeight_def Let_def)

lemma add_40_near:
  assumes a: "boundHeight h = Fin (of_int k)" and k4: "400 < k" and k2: "k \<le> 19960"
  shows "boundHeight (num_add h (Fin 40)) = Fin (of_int (k + 39)) \<or>
         boundHeight (num_add h (Fin 40)) = Fin (of_int (k + 40))"
proof (cases h)
  case (Fin r)
  have "max 400 (min \<lceil>r\<rceil> 20000) = k"
    using a Fin by (simp add: boundHeight_cases)
  then have rk: "\<lceil>r\<rceil> = k" using k4 k2 by (simp add: max_def min_def split: if_splits)
  have lt: "(of_int k :: rat) - 1 < r" using ceiling_correct [of r] rk by simp
  have "(0::rat) < of_int k" using k4 by simp
  then have nz: "r + 40 \<noteq> 0" using lt by simp
  have s: "num_add h (Fin 40) = round_double (r + 40)"
    using Fin nz by (simp add: num_add_def is_inf_def val_def)
  have hn: "h \<noteq> NaN" using Fin by simp
  obtain a' b where ab: "boundHeight h = Fin (of_int a')"
      "boundHeight (num_add h (Fin 40)) = Fin (of_int b)" "b \<le> a' + 40"
    using add_40_bounds [OF hn] by blast
  have "a' = k" using a ab(1) by simp
  then have up: "b \<le> k + 40" using ab(3) by simp
  have ge: "(of_int (k + 39) :: rat) \<le> r + 40" using lt by simp
  have p: "0 < k + 39" "k + 39 < 2 ^ 53" using k4 k2 by simp_all
  obtain c where c: "boundHeight (round_double (r + 40)) = Fin (of_int c)"
      "min (k + 39) 20000 \<le> c"
    using bound_round_lower [OF ge p] by blast
  have "c = b" using c(1) ab(2) s by simp
  then have "k + 39 \<le> b" using c(2) k2 by simp
  then have "b = k + 39 \<or> b = k + 40" using up by linarith
  then show ?thesis using ab(2) by auto
next
  case NaN
  then show ?thesis using a by (simp add: boundHeight_cases)
next
  case PInf
  then have "k = 20000" using a by (simp add: boundHeight_cases)
  then show ?thesis using k2 by simp
next
  case NInf
  then have "k = 400" using a by (simp add: boundHeight_cases)
  then show ?thesis using k4 by simp
next
  case NegZero
  then have "k = 400" using a by (simp add: boundHeight_cases)
  then show ?thesis using k4 by simp
qed

text \<open>
  Claim C4, as the code has it, in double-precision arithmetic. Let the watermark option
  ask for a watermark that is drawn (\<^verbatim>\<open>true\<close>, absent, or a configuration that is not
  disabled), and let the accumulated height of the document without a watermark
  (\<^verbatim>\<open>watermark: false\<close>) be a number. Then the normalized watermark is enabled; the
  accumulated height with the watermark is the accumulated height without it plus 40 (one
  addition of doubles, before the bounds); both final heights are integers, and the final
  height with the watermark is at least the final height without it and at most 40 more;
  it is 39 or 40 more when the final height without the watermark is above 400 and at
  most 19960; and it is exactly 40 more when the accumulated height without the watermark
  is an integer from 400 to 19960.
\<close>

theorem watermark_reserve:
  "watermark_requested cfg \<and>
   accumulatedHeight th mcw (normalizeWatermark (Some (WBool False)) th) blocks \<noteq> NaN \<longrightarrow>
     (\<exists>wm. normalizeWatermark cfg th = Some wm \<and> wenabled wm = Some True) \<and>
     accumulatedHeight th mcw (normalizeWatermark cfg th) blocks =
       num_add (accumulatedHeight th mcw (normalizeWatermark (Some (WBool False)) th) blocks)
         (Fin 40) \<and>
     (\<exists>a b. estimateHeight th mcw (normalizeWatermark (Some (WBool False)) th) blocks =
               Fin (of_int a) \<and>
            estimateHeight th mcw (normalizeWatermark cfg th) blocks = Fin (of_int b) \<and>
            a \<le> b \<and> b \<le> a + 40) \<and>
     (estimateHeight th mcw (normalizeWatermark (Some (WBool False)) th) blocks =
        Fin (of_int k) \<and> 400 < k \<and> k \<le> 19960 \<longrightarrow>
        estimateHeight th mcw (normalizeWatermark cfg th) blocks = Fin (of_int (k + 39)) \<or>
        estimateHeight th mcw (normalizeWatermark cfg th) blocks = Fin (of_int (k + 40))) \<and>
     (accumulatedHeight th mcw (normalizeWatermark (Some (WBool False)) th) blocks =
        Fin (of_int n) \<and> 400 \<le> n \<and> n \<le> 19960 \<longrightarrow>
        estimateHeight th mcw (normalizeWatermark (Some (WBool False)) th) blocks =
          Fin (of_int n) \<and>
        estimateHeight th mcw (normalizeWatermark cfg th) blocks = Fin (of_int (n + 40)))"
proof (intro impI)
  assume a: "watermark_requested cfg \<and>
    accumulatedHeight th mcw (normalizeWatermark (Some (WBool False)) th) blocks \<noteq> NaN"
  define h where "h = accumulatedHeight th mcw None blocks"
  have h: "h \<noteq> NaN" using a by (simp add: h_def watermark_off)
  obtain wm where wm: "normalizeWatermark cfg th = Some wm" "wenabled wm = Some True"
    using a watermark_on [of cfg th] by blast
  have acc: "accumulatedHeight th mcw (normalizeWatermark cfg th) blocks = num_add h (Fin 40)"
    by (simp add: wm watermark_adds_40 h_def)
  have 1: "\<exists>wm. normalizeWatermark cfg th = Some wm \<and> wenabled wm = Some True"
    using wm by blast
  have 3: "\<exists>a b. boundHeight h = Fin (of_int a) \<and>
             boundHeight (num_add h (Fin 40)) = Fin (of_int b) \<and> a \<le> b \<and> b \<le> a + 40"
    using add_40_bounds [OF h] .
  have 4: "h = Fin (of_int n) \<and> 400 \<le> n \<and> n \<le> 19960 \<longrightarrow>
      boundHeight h = Fin (of_int n) \<and> boundHeight (num_add h (Fin 40)) = Fin (of_int (n + 40))"
    using add_40_exact [of n] by auto
  have 5: "boundHeight h = Fin (of_int k) \<and> 400 < k \<and> k \<le> 19960 \<longrightarrow>
      boundHeight (num_add h (Fin 40)) = Fin (of_int (k + 39)) \<or>
      boundHeight (num_add h (Fin 40)) = Fin (of_int (k + 40))"
    using add_40_near [of h k] by blast
  show "(\<exists>wm. normalizeWatermark cfg th = Some wm \<and> wenabled wm = Some True) \<and>
     accumulatedHeight th mcw (normalizeWatermark cfg th) blocks =
       num_add (accumulatedHeight th mcw (normalizeWatermark (Some (WBool False)) th) blocks)
         (Fin 40) \<and>
     (\<exists>a b. estimateHeight th mcw (normalizeWatermark (Some (WBool False)) th) blocks =
               Fin (of_int a) \<and>
            estimateHeight th mcw (normalizeWatermark cfg th) blocks = Fin (of_int b) \<and>
            a \<le> b \<and> b \<le> a + 40) \<and>
     (estimateHeight th mcw (normalizeWatermark (Some (WBool False)) th) blocks =
        Fin (of_int k) \<and> 400 < k \<and> k \<le> 19960 \<longrightarrow>
        estimateHeight th mcw (normalizeWatermark cfg th) blocks = Fin (of_int (k + 39)) \<or>
        estimateHeight th mcw (normalizeWatermark cfg th) blocks = Fin (of_int (k + 40))) \<and>
     (accumulatedHeight th mcw (normalizeWatermark (Some (WBool False)) th) blocks =
        Fin (of_int n) \<and> 400 \<le> n \<and> n \<le> 19960 \<longrightarrow>
        estimateHeight th mcw (normalizeWatermark (Some (WBool False)) th) blocks =
          Fin (of_int n) \<and>
        estimateHeight th mcw (normalizeWatermark cfg th) blocks = Fin (of_int (n + 40)))"
    using 1 3 4 5
    by (simp only: estimateHeight_def acc watermark_off h_def [symmetric])
qed

theorem watermark_reserve_witness:
  "watermark_requested (Some (WBool True)) \<and>
   accumulatedHeight lightTheme (Fin 1120) (normalizeWatermark (Some (WBool False)) lightTheme)
     (normalizeAST (parent ''root'' [parent ''list'' (replicate 20 (parent ''listItem'' []))])) =
     Fin 664 \<and>
   estimateHeight lightTheme (Fin 1120) (normalizeWatermark (Some (WBool False)) lightTheme)
     (normalizeAST (parent ''root'' [parent ''list'' (replicate 20 (parent ''listItem'' []))])) =
     Fin 664 \<and>
   estimateHeight lightTheme (Fin 1120) (normalizeWatermark (Some (WBool True)) lightTheme)
     (normalizeAST (parent ''root'' [parent ''list'' (replicate 20 (parent ''listItem'' []))])) =
     Fin 704"
proof -
  let ?doc = "normalizeAST (parent ''root'' [parent ''list'' (replicate 20 (parent ''listItem'' []))])"
  have r: "watermark_requested (Some (WBool True))"
    by (simp add: watermark_requested_def)
  have acc: "accumulatedHeight lightTheme (Fin 1120)
      (normalizeWatermark (Some (WBool False)) lightTheme) ?doc = Fin (of_int 664)"
    by code_simp
  show ?thesis
    using r acc watermark_reserve [of "Some (WBool True)" lightTheme "Fin 1120" ?doc 664 664]
    by simp
qed

text \<open>
  The sum of the heading contributions is rounded: for a list of 27 items followed by
  headings of levels 1, 1 and 5 the accumulated height is just above 1004, so the final
  height is 1005 without a watermark and 1044 with one.
\<close>

lemma rounding_example_accumulated:
  "accumulatedHeight lightTheme (Fin 1120) None
     (normalizeAST (parent ''root''
        [parent ''list'' (replicate 27 (parent ''listItem'' [])),
         heading_node 1 [], heading_node 1 [], heading_node 5 []])) =
     Fin (8831277394296833 / 8796093022208)"
  by code_simp

lemma rounding_example_sum:
  "num_add (Fin (8831277394296833 / 8796093022208)) (Fin 40) = Fin 1044"
  by code_simp

lemma rounding_example_ceiling: "\<lceil>(8831277394296833 / 8796093022208 :: rat)\<rceil> = 1005"
  by (simp add: ceiling_eq_iff)

lemma rounding_example:
  "estimateHeight lightTheme (Fin 1120) (normalizeWatermark (Some (WBool False)) lightTheme)
     (normalizeAST (parent ''root''
        [parent ''list'' (replicate 27 (parent ''listItem'' [])),
         heading_node 1 [], heading_node 1 [], heading_node 5 []])) = Fin 1005 \<and>
   estimateHeight lightTheme (Fin 1120) (normalizeWatermark (Some (WBool True)) lightTheme)
     (normalizeAST (parent ''root''
        [parent ''list'' (replicate 27 (parent ''listItem'' [])),
         heading_node 1 [], heading_node 1 [], heading_node 5 []])) = Fin 1044"
proof -
  have on: "normalizeWatermark (Some (WBool True)) lightTheme =
      Some (DEFAULT_WATERMARK\<lparr>wcolor := Some ''#999999''\<rparr>)"
    by (simp add: normalizeWatermark_def lightTheme_def)
  show ?thesis
    by (simp add: estimateHeight_def watermark_off on watermark_adds_40
          rounding_example_accumulated rounding_example_sum boundHeight_cases
          rounding_example_ceiling)
qed

text \<open>
  Claim C4 as the specification states it (strictly greater, by exactly 40, for every
  document) fails: the bounds are applied after the reserve is added, and for the empty
  document the final height is 400 with the watermark and without it.
\<close>

theorem watermark_reserve_clamped:
  "estimateHeight lightTheme (Fin 1120) (normalizeWatermark (Some (WBool False)) lightTheme)
     (normalizeAST (parent ''root'' [])) = Fin 400 \<and>
   estimateHeight lightTheme (Fin 1120) (normalizeWatermark (Some (WBool True)) lightTheme)
     (normalizeAST (parent ''root'' [])) = Fin 400 \<and>
   rheight (renderMarkdownToImage no_files (\<lambda>s. parent ''root'' [])
              ((default_options []) \<lparr>watermark := Some (WBool False)\<rparr>)) = Fin 400 \<and>
   rheight (renderMarkdownToImage no_files (\<lambda>s. parent ''root'' [])
              ((default_options []) \<lparr>watermark := Some (WBool True)\<rparr>)) = Fin 400"
  by code_simp

subsection \<open>A supplied height\<close>

lemma truthy_iff: "truthy h \<longleftrightarrow> h \<noteq> NaN \<and> h \<noteq> Fin 0 \<and> h \<noteq> NegZero"
  by (auto simp: truthy_def is_zero_def)

text \<open>
  Claim C6, as the code has it. The test \<^verbatim>\<open>if (options.height)\<close> holds of a supplied
  height that is truthy: every number other than \<open>0\<close>, \<open>-0\<close> and \<open>NaN\<close>. Such a height
  is committed as it is, and becomes the height of the result; the estimate is not computed
  (the decision does not depend on the blocks). With no height, and also with a supplied
  height of \<open>0\<close>, \<open>-0\<close> or \<open>NaN\<close>, which the test takes for absent, the height is the
  estimate.
\<close>

theorem explicit_height_verbatim:
  "(truthy h \<longleftrightarrow> h \<noteq> NaN \<and> h \<noteq> Fin 0 \<and> h \<noteq> NegZero) \<and>
   (height options = Some h \<and> truthy h \<longrightarrow>
      decideHeight options blocks = Supplied h \<and>
      rheight (renderMarkdownToImage readFileSync parseMarkdown options) = h) \<and>
   (height options = None \<or> (height options = Some h \<and> \<not> truthy h) \<longrightarrow>
      decideHeight options blocks =
        Estimated (estimateHeight (optionsTheme options) (optionsMaxContentWidth options)
                     (normalizeWatermark (watermark options) (optionsTheme options)) blocks))"
  using truthy_iff [of h]
  by (auto simp: decideHeight_def renderMarkdownToImage_def renderLayout_def finalHeight_def
        Let_def)

theorem explicit_height_verbatim_witness:
  "height ((default_options ''# Hi'') \<lparr>height := Some (Fin 50)\<rparr>) = Some (Fin 50) \<and>
   truthy (Fin 50) \<and>
   decideHeight ((default_options ''# Hi'') \<lparr>height := Some (Fin 50)\<rparr>) [paragraph_block] =
     Supplied (Fin 50) \<and>
   rheight (renderMarkdownToImage no_files (\<lambda>s. parent ''root'' [])
              ((default_options ''# Hi'') \<lparr>height := Some (Fin 50)\<rparr>)) = Fin 50 \<and>
   height (default_options ''# Hi'') = None \<and>
   decideHeight (default_options ''# Hi'') [paragraph_block] = Estimated (Fin 400)"
proof -
  have a: "height ((default_options ''# Hi'') \<lparr>height := Some (Fin 50)\<rparr>) = Some (Fin 50) \<and>
      truthy (Fin 50)"
    by (simp add: default_options_def truthy_def is_zero_def)
  have b: "height (default_options ''# Hi'') = None"
    by (simp add: default_options_def)
  have c: "estimateHeight (optionsTheme (default_options ''# Hi''))
             (optionsMaxContentWidth (default_options ''# Hi''))
             (normalizeWatermark (watermark (default_options ''# Hi''))
                (optionsTheme (default_options ''# Hi''))) [paragraph_block] = Fin 400"
    by code_simp
  show ?thesis
    using a b c
      explicit_height_verbatim [of "Fin 50"
        "(default_options ''# Hi'') \<lparr>height := Some (Fin 50)\<rparr>"
        "[paragraph_block]" no_files "\<lambda>s. parent ''root'' []"]
      explicit_height_verbatim [of "Fin 0" "default_options ''# Hi''" "[paragraph_block]"
        no_files "\<lambda>s. parent ''root'' []"]
    by simp
qed

text \<open>
  Claim C6 as the specification states it (every supplied height is used verbatim) fails:
  a supplied height of \<open>0\<close> is not committed; the estimator runs and the height of the
  result is 400. The same holds of a supplied \<open>NaN\<close>, which is what the command line
  passes for a \<^verbatim>\<open>--height\<close> that is not a number.
\<close>

theorem zero_height_estimated:
  "height ((default_options ''# Hi'') \<lparr>height := Some (Fin 0)\<rparr>) = Some (Fin 0) \<and>
   decideHeight ((default_options ''# Hi'') \<lparr>height := Some (Fin 0)\<rparr>) [] =
     Estimated (Fin 400) \<and>
   rheight (renderMarkdownToImage no_files (\<lambda>s. parent ''root'' [])
              ((default_options ''# Hi'') \<lparr>height := Some (Fin 0)\<rparr>)) = Fin 400 \<and>
   decideHeight ((default_options ''# Hi'') \<lparr>height := Some NaN\<rparr>) [] = Estimated (Fin 400) \<and>
   rheight (renderMarkdownToImage no_files (\<lambda>s. parent ''root'' [])
              ((default_options ''# Hi'') \<lparr>height := Some NaN\<rparr>)) = Fin 400"
  by code_simp

subsection \<open>Input that names no file\<close>

text \<open>
  Claim C8. When reading the input as a file throws, whatever the exception, the input
  string itself is the Markdown source: the blocks and the result are those of parsing and
  normalizing the input string.
\<close>

theorem missing_file_literal:
  "readFileSync (input options) = Inl e \<Longrightarrow>
     loadMarkdown readFileSync (input options) = input options \<and>
     renderMarkdownToImage readFileSync parseMarkdown options =
       renderLayout options (normalizeAST (parseMarkdown (input options)))"
  by (simp add: loadMarkdown_def renderMarkdownToImage_def)

theorem missing_file_literal_witness:
  "no_files (input (default_options ''# Hi'')) = Inl (Error ''ENOENT'') \<and>
   loadMarkdown no_files (input (default_options ''# Hi'')) = ''# Hi''"
proof -
  have h: "no_files (input (default_options ''# Hi'')) = Inl (Error ''ENOENT'')"
    by (simp add: no_files_def)
  show ?thesis
    using h missing_file_literal [of no_files "default_options ''# Hi''" "Error ''ENOENT''"
        "\<lambda>s. parent ''root'' []"]
    by (simp add: default_options_def)
qed

section \<open>Highlighting falls back to plain lines\<close>








end
